theory Spec2Isabelle
  imports Main "HOL-Library.Sublist"
begin

section \<open>InsightPDF: the router-query demo of \<open>Implementing_Router_Query.py\<close>\<close>

text \<open>
  The script is integration glue between a UI framework (streamlit), the operating
  system (a temporary file) and an LLM-orchestration library (llama_index). The model
  is a state-passing embedding of one run of the script:
  \<^item> the world holds the file system, the store behind \<open>st.cache_resource\<close>, the two
    attributes of the global \<open>Settings\<close> object the script assigns, and a trace of the
    calls made into external code, in the order they are made;
  \<^item> library objects that the script only constructs and hands on are symbolic values
    (a datatype constructor per library constructor, carrying the arguments passed);
  \<^item> library calls that compute something (loading, splitting, selecting, answering) are
    fields of a record \<open>lib\<close>; each may raise, so each returns \<open>exn + 'a\<close>;
  \<^item> every function of the script returns \<open>(exn + 'a) \<times> world\<close>: \<open>Inl e\<close> is the
    exception \<open>e\<close> leaving the function.
\<close>

subsection \<open>Data\<close>

type_synonym path = string
type_synonym bytes = string

datatype exn =
    FileExistsError
  | FileNotFoundError path
  | IndexError
  | LibraryError string

datatype document = Document string
datatype node = TextNode string
datatype response = Response string

datatype llm = OpenAI string "string option"
datatype embedding = OpenAIEmbedding string "string option"

datatype splitter = SentenceSplitter (chunk_size: nat)

datatype index = SummaryIndex (index_nodes: "node list") | VectorStoreIndex (index_nodes: "node list")

text \<open>
  \<open>ToolMetadata(description=...)\<close>: the keyword arguments as passed; \<open>name = None\<close>
  is a call that passes no \<open>name\<close>.
\<close>

datatype tool_metadata = ToolMetadata (description: string) (name: "string option")

text \<open>\<open>LLMSingleSelector.from_defaults()\<close>, called without arguments.\<close>

datatype selector = LLMSingleSelector

text \<open>
  \<open>index.as_query_engine(response_mode=..., use_async=...)\<close> with the keyword arguments
  as passed (\<open>None\<close>: not passed), and
  \<open>RouterQueryEngine(selector=..., query_engine_tools=[...], verbose=...)\<close>.
\<close>

datatype query_engine =
    AsQueryEngine index "string option" "bool option"
  | RouterQueryEngine selector "query_engine_tool list" bool
and query_engine_tool =
    QueryEngineTool (tool_query_engine: query_engine) (metadata: tool_metadata)

text \<open>The calls into external code, with their arguments, and the exceptions they raise.\<close>

datatype event =
    LoadDotenv
  | NestAsyncioApply
  | StMarkdown string bool
  | StFileUploader string string
  | NamedTemporaryFileCall bool string
  | FileWrite path bytes
  | CacheLookup path
  | LoadData "path list"
  | GetNodes splitter "document list"
  | NewIndex index
  | StTextInput string string
  | StButton string
  | StSpinner string
  | Query query_engine string
  | Select selector "tool_metadata list" string
  | Str response
  | StWrite string
  | OsUnlink path
  | StInfo string
  | SidebarTitle string
  | SidebarInfo string
  | Raised exn

record world =
  fs :: "path \<rightharpoonup> bytes"
  cache :: "path \<rightharpoonup> query_engine"
  Settings_llm :: "llm option"
  Settings_embedding :: "embedding option"
  trace :: "event list"

text \<open>
  The behaviour of the external library, none of which is in the repository:
  \<^item> \<open>load_data files paths\<close>: \<open>SimpleDirectoryReader(input_files=paths).load_data()\<close>
    on the file system \<open>files\<close>;
  \<^item> \<open>get_nodes_from_documents splitter documents\<close>;
  \<^item> \<open>index_init idx\<close>: the exception raised while the index \<open>idx\<close> is constructed
    (the vector index embeds its nodes through the remote API), if any;
  \<^item> \<open>select sel metadatas q\<close>: the position of the tool the selector chooses;
  \<^item> \<open>answer engine q\<close>: the response of an index's query engine;
  \<^item> \<open>response_str r\<close>: \<open>str(r)\<close>.
\<close>

record lib =
  load_data :: "(path \<rightharpoonup> bytes) \<Rightarrow> path list \<Rightarrow> exn + document list"
  get_nodes_from_documents :: "splitter \<Rightarrow> document list \<Rightarrow> exn + node list"
  index_init :: "index \<Rightarrow> exn option"
  select :: "selector \<Rightarrow> tool_metadata list \<Rightarrow> string \<Rightarrow> exn + nat"
  answer :: "query_engine \<Rightarrow> string \<Rightarrow> exn + response"
  response_str :: "response \<Rightarrow> exn + string"

text \<open>
  What one run of the script receives from outside: the environment variable, the
  widgets' return values, and the names \<open>tempfile\<close> draws for this run.
\<close>

record inputs =
  OPENAI_API_KEY :: "string option"
  uploaded_file :: "bytes option"
  text_input :: string
  button :: bool
  tmp_names :: "string list"

subsection \<open>Sequencing, calls and exceptions\<close>

type_synonym 'a io = "world \<Rightarrow> (exn + 'a) \<times> world"

definition log :: "event \<Rightarrow> world \<Rightarrow> world" where
  "log ev s = s\<lparr>trace := trace s @ [ev]\<rparr>"

definition emit :: "event \<Rightarrow> unit io" where
  "emit ev s = (Inr (), log ev s)"

text \<open>
  An external call: the call is recorded; when it raises, so is the exception, which
  leaves the calling function (nothing in the script catches anything).
\<close>

definition call :: "event \<Rightarrow> exn + 'a \<Rightarrow> 'a io" where
  "call ev r s =
     (case r of
        Inl e \<Rightarrow> (Inl e, log (Raised e) (log ev s))
      | Inr v \<Rightarrow> (Inr v, log ev s))"

definition bind_io :: "'a io \<Rightarrow> ('a \<Rightarrow> 'b io) \<Rightarrow> 'b io" where
  "bind_io m f s = (case m s of (Inl e, s') \<Rightarrow> (Inl e, s') | (Inr v, s') \<Rightarrow> f v s')"

definition new_events :: "world \<Rightarrow> world \<Rightarrow> event list" where
  "new_events s s' = drop (length (trace s)) (trace s')"

subsection \<open>The temporary file\<close>

text \<open>
  \<open>tempfile\<close> tries the names it draws until one does not exist (it opens with
  \<open>O_EXCL\<close>), and raises \<open>FileExistsError\<close> when it runs out of attempts.
\<close>

fun mkstemp_inner :: "(path \<rightharpoonup> bytes) \<Rightarrow> string list \<Rightarrow> string \<Rightarrow> exn + path" where
  "mkstemp_inner files [] sfx = Inl FileExistsError"
| "mkstemp_inner files (n # ns) sfx =
     (if files (n @ sfx) = None then Inr (n @ sfx)
      else mkstemp_inner files ns sfx)"

definition NamedTemporaryFile :: "string list \<Rightarrow> bool \<Rightarrow> string \<Rightarrow> path io" where
  "NamedTemporaryFile names delete sfx s =
     bind_io (call (NamedTemporaryFileCall delete sfx) (mkstemp_inner (fs s) names sfx))
       (\<lambda>p s'. (Inr p, s'\<lparr>fs := (fs s')(p \<mapsto> [])\<rparr>)) s"

definition file_write :: "path \<Rightarrow> bytes \<Rightarrow> unit io" where
  "file_write p b s =
     (Inr (), log (FileWrite p b)
                (s\<lparr>fs := (fs s)(p \<mapsto> (case fs s p of None \<Rightarrow> b | Some old \<Rightarrow> old @ b))\<rparr>))"

text \<open>Leaving the \<open>with\<close> block closes the file; it is removed only when \<open>delete\<close> is set.\<close>

definition file_close :: "path \<Rightarrow> bool \<Rightarrow> unit io" where
  "file_close p delete s = (Inr (), if delete then s\<lparr>fs := (fs s)(p := None)\<rparr> else s)"

text \<open>
  Lines 76 to 78: the \<open>with\<close> block that creates the temporary file, writes the upload
  into it and keeps its name.
\<close>

definition write_upload :: "string list \<Rightarrow> bytes \<Rightarrow> path io" where
  "write_upload names getvalue =
     bind_io (NamedTemporaryFile names False ''.pdf'') (\<lambda>tmp_file.
     bind_io (file_write tmp_file getvalue) (\<lambda>_.
     let tmp_file_path = tmp_file in
     bind_io (file_close tmp_file False) (\<lambda>_ s.
     (Inr tmp_file_path, s))))"

definition os_unlink :: "path \<Rightarrow> unit io" where
  "os_unlink p s =
     bind_io (call (OsUnlink p) (if fs s p = None then Inl (FileNotFoundError p) else Inr ()))
       (\<lambda>_ s'. (Inr (), s'\<lparr>fs := (fs s')(p := None)\<rparr>)) s"

subsection \<open>The setup routine\<close>

text \<open>
  Lines 42 to 68 of \<open>load_and_process_data\<close>: the two query engines, the two tools
  (each \<open>ToolMetadata\<close> is given a description and nothing else) and the router over
  them. These are constructor calls only.
\<close>

definition router_over :: "index \<Rightarrow> index \<Rightarrow> query_engine" where
  "router_over summary_index vector_index =
     (let summary_query_engine = AsQueryEngine summary_index (Some ''tree_summarize'') (Some True);
          vector_query_engine = AsQueryEngine vector_index None None;
          summary_tool = QueryEngineTool summary_query_engine
            (ToolMetadata ''Useful for summarizing the uploaded PDF.'' None);
          vector_tool = QueryEngineTool vector_query_engine
            (ToolMetadata ''Useful for finding similar sentences in the uploaded PDF.'' None)
      in RouterQueryEngine LLMSingleSelector [summary_tool, vector_tool] True)"

text \<open>The body of \<open>load_and_process_data\<close> (lines 27 to 70), under the decorator.\<close>

definition load_and_process_data_body :: "lib \<Rightarrow> string option \<Rightarrow> path \<Rightarrow> query_engine io" where
  "load_and_process_data_body L api_key file_path =
     bind_io (\<lambda>s. call (LoadData [file_path]) (load_data L (fs s) [file_path]) s) (\<lambda>documents.
     let splitter = SentenceSplitter 1024 in
     bind_io (call (GetNodes splitter documents) (get_nodes_from_documents L splitter documents))
       (\<lambda>nodes.
     bind_io (\<lambda>s. (Inr (), s\<lparr>Settings_llm := Some (OpenAI ''gpt-4o-mini'' api_key)\<rparr>)) (\<lambda>_.
     bind_io (\<lambda>s. (Inr (), s\<lparr>Settings_embedding :=
                                Some (OpenAIEmbedding ''text-embedding-ada-002'' api_key)\<rparr>)) (\<lambda>_.
     bind_io (call (NewIndex (SummaryIndex nodes))
                (case index_init L (SummaryIndex nodes) of
                   Some e \<Rightarrow> Inl e | None \<Rightarrow> Inr (SummaryIndex nodes))) (\<lambda>summary_index.
     bind_io (call (NewIndex (VectorStoreIndex nodes))
                (case index_init L (VectorStoreIndex nodes) of
                   Some e \<Rightarrow> Inl e | None \<Rightarrow> Inr (VectorStoreIndex nodes))) (\<lambda>vector_index.
     (\<lambda>s. (Inr (router_over summary_index vector_index), s))))))))"

text \<open>
  Modelled from the spec: the decorator \<open>st.cache_resource\<close> belongs to the UI framework,
  the spec calls it "a one-line memoization decorator" and the routine under it "a cached
  setup routine". The store is keyed by the argument; a hit returns the stored value and
  does not enter the body; a miss runs the body and stores what it returns. A body that
  raises returns nothing, so nothing is stored and the exception leaves the call.
\<close>

definition cache_resource :: "(path \<Rightarrow> query_engine io) \<Rightarrow> path \<Rightarrow> query_engine io" where
  "cache_resource f arg =
     bind_io (emit (CacheLookup arg)) (\<lambda>_ s.
       case cache s arg of
         Some v \<Rightarrow> (Inr v, s)
       | None \<Rightarrow> bind_io (f arg) (\<lambda>v s'. (Inr v, s'\<lparr>cache := (cache s')(arg \<mapsto> v)\<rparr>)) s)"

definition load_and_process_data :: "lib \<Rightarrow> string option \<Rightarrow> path \<Rightarrow> query_engine io" where
  "load_and_process_data L api_key = cache_resource (load_and_process_data_body L api_key)"

subsection \<open>Querying\<close>

definition raise :: "exn \<Rightarrow> 'a io" where
  "raise e s = (Inl e, log (Raised e) s)"

text \<open>
  Modelled from the spec: \<open>query_engine.query\<close> is the library's; the spec says of it
  "the user's question is forwarded to the router, which forwards it to whichever
  underlying tool the LLM selector chooses, which in turn makes further LLM calls to
  produce the final answer", and of the selector that it "asks the remote LLM to choose
  among a small set of named tools at query time". So a router asks its selector once,
  with the metadata of its tools and the question, and hands the question to the engine
  of the tool at the chosen position (a position outside the list is Python's
  \<open>IndexError\<close>); an index's engine answers by itself.
\<close>

function query :: "lib \<Rightarrow> query_engine \<Rightarrow> string \<Rightarrow> response io" where
  "query L (AsQueryEngine idx rm ua) q =
     call (Query (AsQueryEngine idx rm ua) q) (answer L (AsQueryEngine idx rm ua) q)"
| "query L (RouterQueryEngine sel tools verbose) q =
     bind_io (emit (Query (RouterQueryEngine sel tools verbose) q)) (\<lambda>_.
     bind_io (call (Select sel (map metadata tools) q) (select L sel (map metadata tools) q))
       (\<lambda>i.
     if i < length tools then query L (tool_query_engine (tools ! i)) q
     else raise IndexError))"
  by pat_completeness auto
termination
proof -
  have nth: "i < length ts \<Longrightarrow> size (tool_query_engine (ts ! i)) < Suc (size_list size ts)"
    for i and ts :: "query_engine_tool list"
  proof (induction ts arbitrary: i)
    case Nil
    then show ?case by simp
  next
    case (Cons t ts)
    show ?case
    proof (cases i)
      case 0
      then show ?thesis by (cases t) simp
    next
      case (Suc j)
      with Cons show ?thesis by fastforce
    qed
  qed
  show ?thesis
    by (relation "measure (\<lambda>(L, e, q). size e)") (simp_all add: nth)
qed

subsection \<open>The script\<close>

definition title_html :: string where
  "title_html = ''<h1 style='text-align: center; color: Black;'>InsightPDF</h1>''"

definition answer_html :: "string \<Rightarrow> string" where
  \<open>answer_html txt =
     ''\<newline>            <div style="background-color: #f0f2f6; border-radius: 10px; padding: 20px; margin: 10px 0;">\<newline>                ''
     @ txt @ ''\<newline>            </div>\<newline>            ''\<close>

text \<open>Lines 87 to 94: the block under \<open>if st.button("Submit Query")\<close>.\<close>

definition submit_query :: "lib \<Rightarrow> query_engine \<Rightarrow> string \<Rightarrow> unit io" where
  "submit_query L query_engine user_query =
     bind_io (emit (StSpinner ''Processing your query...'')) (\<lambda>_.
     bind_io (query L query_engine user_query) (\<lambda>response.
     bind_io (emit (StWrite ''Response:'')) (\<lambda>_.
     bind_io (call (Str response) (response_str L response)) (\<lambda>txt.
     emit (StMarkdown (answer_html txt) True)))))"

definition about_text :: string where
  "about_text =
     ''This application allows you to query information from any uploaded PDF document. '' @
     ''You can ask questions about its content, and the AI will analyze the document to provide answers.''"

definition how_to_use_text :: string where
  "how_to_use_text =
     ''1. Upload a PDF file using the file uploader.\<newline>'' @
     ''2. Enter your question in the text box.\<newline>'' @
     ''3. Click 'Submit Query' to get a response.\<newline>'' @
     ''4. The app will use AI to analyze the PDF and provide an answer.''"

text \<open>Lines 102 to 116: the sidebar, shown on every run that gets there.\<close>

definition sidebar :: "unit io" where
  "sidebar =
     bind_io (emit (SidebarTitle ''About PDF Query App'')) (\<lambda>_.
     bind_io (emit (SidebarInfo about_text)) (\<lambda>_.
     bind_io (emit (SidebarTitle ''How to Use'')) (\<lambda>_.
     emit (SidebarInfo how_to_use_text))))"

text \<open>One run of the script, top to bottom.\<close>

definition app :: "lib \<Rightarrow> inputs \<Rightarrow> unit io" where
  "app L inp =
     bind_io (emit LoadDotenv) (\<lambda>_.
     bind_io (emit NestAsyncioApply) (\<lambda>_.
     bind_io (emit (StMarkdown title_html True)) (\<lambda>_.
     bind_io (emit (StFileUploader ''Choose a PDF file'' ''pdf'')) (\<lambda>_.
     case uploaded_file inp of
       Some getvalue \<Rightarrow>
         bind_io (write_upload (tmp_names inp) getvalue) (\<lambda>tmp_file_path.
         bind_io (load_and_process_data L (OPENAI_API_KEY inp) tmp_file_path) (\<lambda>query_engine.
         bind_io (emit (StTextInput ''Enter your question about the uploaded PDF:''
                          ''What is this document about?'')) (\<lambda>_.
         bind_io (emit (StButton ''Submit Query'')) (\<lambda>_.
         bind_io (if button inp then submit_query L query_engine (text_input inp)
                  else (\<lambda>s. (Inr (), s))) (\<lambda>_.
         bind_io (os_unlink tmp_file_path) (\<lambda>_.
         sidebar))))))
     | None \<Rightarrow>
         bind_io (emit (StInfo ''Please upload a PDF file to begin.'')) (\<lambda>_.
         sidebar)))))"

text \<open>The tools a router was constructed with (an index's engine has none).\<close>

fun query_engine_tools :: "query_engine \<Rightarrow> query_engine_tool list" where
  "query_engine_tools (RouterQueryEngine sel tools verbose) = tools"
| "query_engine_tools (AsQueryEngine idx rm ua) = []"

subsection \<open>Kinds of events, and the discipline of exceptions on a trace\<close>

fun is_Raised :: "event \<Rightarrow> bool" where
  "is_Raised (Raised e) = True"
| "is_Raised _ = False"

fun setup_event :: "event \<Rightarrow> bool" where
  "setup_event (LoadData ps) = True"
| "setup_event (GetNodes sp ds) = True"
| "setup_event (NewIndex idx) = True"
| "setup_event _ = False"

fun query_event :: "event \<Rightarrow> bool" where
  "query_event (Query e q) = True"
| "query_event (Select sel mds q) = True"
| "query_event _ = False"


fun is_OsUnlink :: "event \<Rightarrow> bool" where
  "is_OsUnlink (OsUnlink p) = True"
| "is_OsUnlink _ = False"

text \<open>
  A computation that ends with the exception \<open>e\<close> has \<open>Raised e\<close> as its last event
  and no other exception before it; one that returns has none at all.
\<close>

definition disciplined :: "exn + 'a \<Rightarrow> event list \<Rightarrow> bool" where
  "disciplined r evs =
     (case r of
        Inl e \<Rightarrow> (\<exists>pre. evs = pre @ [Raised e] \<and> list_all (\<lambda>ev. \<not> is_Raised ev) pre)
      | Inr v \<Rightarrow> list_all (\<lambda>ev. \<not> is_Raised ev) evs)"

text \<open>
  \<open>traces m K\<close>: from any state, \<open>m\<close> only appends to the trace, what it appends are
  events of kind \<open>K\<close> and exceptions, and the exceptions are disciplined.
\<close>

definition traces :: "'a io \<Rightarrow> (event \<Rightarrow> bool) \<Rightarrow> bool" where
  "traces m K =
     (\<forall>s. \<exists>evs. trace (snd (m s)) = trace s @ evs \<and>
        list_all (\<lambda>ev. K ev \<or> is_Raised ev) evs \<and> disciplined (fst (m s)) evs)"

subsection \<open>Segments of the trace of a run\<close>

text \<open>
  What every run with an upload starts with (up to the write into the temporary file
  \<open>p\<close>), the two widgets under the uploader, and the sidebar.
\<close>

definition upload_events :: "path \<Rightarrow> bytes \<Rightarrow> event list" where
  "upload_events p b =
     [LoadDotenv, NestAsyncioApply, StMarkdown title_html True,
      StFileUploader ''Choose a PDF file'' ''pdf'',
      NamedTemporaryFileCall False ''.pdf'', FileWrite p b]"

definition widget_events :: "event list" where
  "widget_events =
     [StTextInput ''Enter your question about the uploaded PDF:'' ''What is this document about?'',
      StButton ''Submit Query'']"

definition sidebar_events :: "event list" where
  "sidebar_events =
     [SidebarTitle ''About PDF Query App'', SidebarInfo about_text,
      SidebarTitle ''How to Use'', SidebarInfo how_to_use_text]"

text \<open>The state in which the setup routine is called on a run with an upload.\<close>

definition uploaded :: "world \<Rightarrow> path \<Rightarrow> bytes \<Rightarrow> world" where
  "uploaded s p b = s\<lparr>fs := (fs s)(p \<mapsto> b), trace := trace s @ upload_events p b\<rparr>"

subsection \<open>What the cache holds\<close>

text \<open>
  An engine of the shape the setup routine returns: the router over the two tools, both
  indices over the same nodes. The store behind the decorator is empty when the process
  starts and only the setup routine's results are ever put into it.
\<close>

definition built_by_setup :: "query_engine \<Rightarrow> bool" where
  "built_by_setup qe =
     (case qe of
        RouterQueryEngine sel (QueryEngineTool (AsQueryEngine idx rm ua) md # ts) v \<Rightarrow>
          qe = router_over (SummaryIndex (index_nodes idx)) (VectorStoreIndex (index_nodes idx))
      | _ \<Rightarrow> False)"

definition cache_inv :: "world \<Rightarrow> bool" where
  "cache_inv s = (\<forall>p qe. cache s p = Some qe \<longrightarrow> built_by_setup qe)"

subsection \<open>Concrete libraries, inputs and worlds\<close>

text \<open>
  A library in which every call succeeds: one document per file, one node per document
  (cut at the chunk size), the selector always chooses the second tool, and the answer
  repeats the question.
\<close>

definition lib_ok :: lib where
  "lib_ok =
     \<lparr>load_data = (\<lambda>files ps.
        case ps of
          [p] \<Rightarrow> (case files p of Some b \<Rightarrow> Inr [Document b] | None \<Rightarrow> Inl (FileNotFoundError p))
        | _ \<Rightarrow> Inr []),
      get_nodes_from_documents = (\<lambda>sp ds.
        Inr (map (\<lambda>d. case d of Document t \<Rightarrow> TextNode (take (chunk_size sp) t)) ds)),
      index_init = (\<lambda>_. None),
      select = (\<lambda>_ _ _. Inr 1),
      answer = (\<lambda>_ q. Inr (Response (''re: '' @ q))),
      response_str = (\<lambda>r. case r of Response t \<Rightarrow> Inr t)\<rparr>"

text \<open>The same library with a remote API that refuses every query.\<close>

definition lib_answer_fails :: lib where
  "lib_answer_fails = lib_ok\<lparr>answer := (\<lambda>_ _. Inl (LibraryError ''rate limit''))\<rparr>"

text \<open>The same library with a reader that cannot parse any file.\<close>

definition lib_load_fails :: lib where
  "lib_load_fails = lib_ok\<lparr>load_data := (\<lambda>_ _. Inl (LibraryError ''cannot parse''))\<rparr>"

definition world0 :: world where
  "world0 = \<lparr>fs = Map.empty, cache = Map.empty, Settings_llm = None,
             Settings_embedding = None, trace = []\<rparr>"

text \<open>A run with an upload and the button pressed; one without the button; one without a file.\<close>

definition inp_submit :: inputs where
  "inp_submit = \<lparr>OPENAI_API_KEY = Some ''sk'', uploaded_file = Some ''%PDF'',
                 text_input = ''What?'', button = True, tmp_names = [''/tmp/tmpa'']\<rparr>"

definition inp_idle :: inputs where
  "inp_idle = inp_submit\<lparr>button := False\<rparr>"

definition inp_no_file :: inputs where
  "inp_no_file = inp_submit\<lparr>uploaded_file := None\<rparr>"

text \<open>The world after a file has been written to \<open>/tmp/tmpa.pdf\<close>.\<close>

definition world_uploaded :: world where
  "world_uploaded = world0\<lparr>fs := [''/tmp/tmpa.pdf'' \<mapsto> ''%PDF'']\<rparr>"

text \<open>A sequence of calls of the setup routine, one after the other on the same world.\<close>

fun calls :: "lib \<Rightarrow> string option \<Rightarrow> path list \<Rightarrow> world \<Rightarrow> world" where
  "calls L k [] s = s"
| "calls L k (p # ps) s = calls L k ps (snd (load_and_process_data L k p s))"

section \<open>Properties\<close>

subsection \<open>Unfolding a run\<close>

lemmas io_defs = bind_io_def emit_def log_def call_def raise_def

lemmas run_defs =
  app_def write_upload_def NamedTemporaryFile_def file_write_def file_close_def os_unlink_def
  load_and_process_data_def cache_resource_def load_and_process_data_body_def router_over_def
  submit_query_def sidebar_def new_events_def io_defs

lemmas setup_defs =
  load_and_process_data_def cache_resource_def load_and_process_data_body_def router_over_def
  new_events_def io_defs

lemmas concrete_defs =
  lib_ok_def lib_answer_fails_def lib_load_fails_def world0_def world_uploaded_def
  inp_submit_def inp_idle_def inp_no_file_def

subsection \<open>Every computation of the script keeps the discipline\<close>

lemma traces_return: "(\<And>s. trace (g s) = trace s) \<Longrightarrow> traces (\<lambda>s. (Inr v, g s)) K"
  by (simp add: traces_def disciplined_def)

lemma traces_emit: "K ev \<Longrightarrow> \<not> is_Raised ev \<Longrightarrow> traces (emit ev) K"
  by (simp add: traces_def disciplined_def emit_def log_def)

lemma traces_raise: "traces (raise e) K"
  by (simp add: traces_def disciplined_def raise_def log_def)

lemma traces_call: "K ev \<Longrightarrow> \<not> is_Raised ev \<Longrightarrow> traces (call ev r) K"
  by (cases r) (simp_all add: traces_def disciplined_def call_def log_def)

lemma traces_dep: "(\<And>t. traces (g t) K) \<Longrightarrow> traces (\<lambda>s. g s s) K"
  by (simp add: traces_def)

lemma traces_mono: "traces m K \<Longrightarrow> (\<And>ev. K ev \<Longrightarrow> K' ev) \<Longrightarrow> traces m K'"
  unfolding traces_def list_all_iff by blast

lemma traces_bind:
  assumes m: "traces m K" and f: "\<And>v. traces (f v) K"
  shows "traces (bind_io m f) K"
  unfolding traces_def
proof
  fix s
  from m obtain evs where e: "trace (snd (m s)) = trace s @ evs"
    "list_all (\<lambda>ev. K ev \<or> is_Raised ev) evs" "disciplined (fst (m s)) evs"
    unfolding traces_def by blast
  obtain r s1 where ms: "m s = (r, s1)" by (cases "m s")
  show "\<exists>evs. trace (snd (bind_io m f s)) = trace s @ evs \<and>
        list_all (\<lambda>ev. K ev \<or> is_Raised ev) evs \<and> disciplined (fst (bind_io m f s)) evs"
  proof (cases r)
    case (Inl x)
    with ms e show ?thesis
      by (intro exI [of _ evs]) (simp add: bind_io_def disciplined_def)
  next
    case (Inr v)
    from f [of v] obtain evs' where e': "trace (snd (f v s1)) = trace s1 @ evs'"
      "list_all (\<lambda>ev. K ev \<or> is_Raised ev) evs'" "disciplined (fst (f v s1)) evs'"
      unfolding traces_def by blast
    from Inr ms e have nr: "list_all (\<lambda>ev. \<not> is_Raised ev) evs"
      by (simp add: disciplined_def)
    have "disciplined (fst (f v s1)) (evs @ evs')"
    proof (cases "fst (f v s1)")
      case (Inl x)
      with e'(3) obtain pre where
        "evs' = pre @ [Raised x]" "list_all (\<lambda>ev. \<not> is_Raised ev) pre"
        by (auto simp: disciplined_def)
      with nr Inl show ?thesis by (simp add: disciplined_def)
    next
      case (Inr w)
      with e'(3) nr show ?thesis by (simp add: disciplined_def)
    qed
    with Inr ms e e' show ?thesis
      by (intro exI [of _ "evs @ evs'"]) (simp add: bind_io_def)
  qed
qed

lemma traces_query: "traces (query L e q) query_event"
proof (induction L e q rule: query.induct)
  case (1 L idx rm ua q)
  show ?case by (simp add: traces_call)
next
  case (2 L sel tools verbose q)
  show ?case
    apply (simp only: query.simps)
    apply (intro traces_bind traces_emit traces_call)
        apply simp_all
    apply (auto intro: 2 traces_raise)
    done
qed

lemma traces_submit_query: "traces (submit_query L e q) (\<lambda>_. True)"
  unfolding submit_query_def
  by (intro traces_bind traces_emit traces_call traces_mono [OF traces_query]) simp_all

lemma traces_call_dep:
  assumes "K ev" and "\<not> is_Raised ev"
  shows "traces (\<lambda>s. call ev (r s) s) K"
  unfolding traces_def
proof
  fix s
  from assms have "traces (call ev (r s)) K" by (rule traces_call)
  then
  show "\<exists>evs. trace (snd (call ev (r s) s)) = trace s @ evs \<and>
        list_all (\<lambda>ev. K ev \<or> is_Raised ev) evs \<and> disciplined (fst (call ev (r s) s)) evs"
    unfolding traces_def by blast
qed

lemma traces_body: "traces (load_and_process_data_body L k p) setup_event"
  unfolding load_and_process_data_body_def Let_def
  by (intro traces_bind traces_call_dep traces_call traces_return) simp_all

lemma traces_cache_resource:
  assumes "\<And>a. traces (f a) K"
  shows "traces (cache_resource f a) (\<lambda>ev. K ev \<or> ev = CacheLookup a)"
proof -
  let ?K = "\<lambda>ev. K ev \<or> ev = CacheLookup a"
  have fa: "traces (f a) ?K" by (rule traces_mono [OF assms]) simp
  have "traces (case cache (t::world) a of
           Some v \<Rightarrow> (\<lambda>s. (Inr v, s))
         | None \<Rightarrow> bind_io (f a) (\<lambda>v s'. (Inr v, s'\<lparr>cache := (cache s')(a \<mapsto> v)\<rparr>))) ?K" for t
    by (cases "cache t a") (auto intro!: traces_bind fa traces_return)
  then have "traces (\<lambda>s. (case cache s a of
           Some v \<Rightarrow> (\<lambda>s. (Inr v, s))
         | None \<Rightarrow> bind_io (f a) (\<lambda>v s'. (Inr v, s'\<lparr>cache := (cache s')(a \<mapsto> v)\<rparr>))) s) ?K"
    by (rule traces_dep)
  then have "traces (\<lambda>s. case cache s a of
           Some v \<Rightarrow> (Inr v, s)
         | None \<Rightarrow> bind_io (f a) (\<lambda>v s'. (Inr v, s'\<lparr>cache := (cache s')(a \<mapsto> v)\<rparr>)) s) ?K"
    by (simp add: option.case_distrib [of "\<lambda>h. h _"] cong: option.case_cong)
  then show ?thesis
    unfolding cache_resource_def
    by (intro traces_bind traces_emit) simp_all
qed

lemma traces_load_and_process_data:
  "traces (load_and_process_data L k p) (\<lambda>ev. setup_event ev \<or> ev = CacheLookup p)"
  unfolding load_and_process_data_def by (rule traces_cache_resource) (rule traces_body)

lemma traces_write_upload: "traces (write_upload names b) (\<lambda>_. True)"
proof -
  have 1: "traces (NamedTemporaryFile names False ''.pdf'') (\<lambda>_. True)"
    by (simp add: traces_def NamedTemporaryFile_def bind_io_def call_def log_def disciplined_def
          split: sum.split)
  have 2: "traces (file_write p b) (\<lambda>_. True)" for p
    by (simp add: traces_def file_write_def log_def disciplined_def)
  have 3: "traces (file_close p False) (\<lambda>_. True)" for p
    by (simp add: traces_def file_close_def disciplined_def)
  show ?thesis
    unfolding write_upload_def Let_def
    by (intro traces_bind 1 2 3 traces_return) simp
qed

lemma traces_os_unlink: "traces (os_unlink p) (\<lambda>_. True)"
  by (simp add: traces_def os_unlink_def bind_io_def call_def log_def disciplined_def)

lemma traces_sidebar: "traces sidebar (\<lambda>_. True)"
  unfolding sidebar_def by (intro traces_bind traces_emit) simp_all

lemma traces_app: "traces (app L inp) (\<lambda>_. True)"
proof (cases "uploaded_file inp")
  case None
  then show ?thesis
    unfolding app_def
    by simp (intro traces_bind traces_emit traces_sidebar; simp)
next
  case (Some b)
  have lpd: "traces (load_and_process_data L k p) (\<lambda>_. True)" for k p
    by (rule traces_mono [OF traces_load_and_process_data]) simp
  have sub: "traces (if button inp then submit_query L qe (text_input inp)
                     else (\<lambda>s. (Inr (), s))) (\<lambda>_. True)" for qe
    by (simp add: traces_submit_query traces_return)
  from Some show ?thesis
    unfolding app_def
    by simp
       (intro traces_bind traces_emit traces_sidebar traces_write_upload lpd sub
          traces_os_unlink; simp)
qed

subsection \<open>The setup routine, step by step\<close>

lemma setup_events_cases:
  "new_events s (snd (load_and_process_data L k p s)) =
     CacheLookup p #
     (case cache s p of
        Some qe \<Rightarrow> []
      | None \<Rightarrow> LoadData [p] #
         (case load_data L (fs s) [p] of
            Inl e \<Rightarrow> [Raised e]
          | Inr documents \<Rightarrow> GetNodes (SentenceSplitter 1024) documents #
             (case get_nodes_from_documents L (SentenceSplitter 1024) documents of
                Inl e \<Rightarrow> [Raised e]
              | Inr nodes \<Rightarrow> NewIndex (SummaryIndex nodes) #
                 (case index_init L (SummaryIndex nodes) of
                    Some e \<Rightarrow> [Raised e]
                  | None \<Rightarrow> NewIndex (VectorStoreIndex nodes) #
                     (case index_init L (VectorStoreIndex nodes) of
                        Some e \<Rightarrow> [Raised e]
                      | None \<Rightarrow> [])))))"
  by (simp add: setup_defs split: option.split sum.split)

lemma setup_cache_kept:
  assumes "cache s p = Some qe"
  shows "cache (snd (load_and_process_data L k q s)) p = Some qe"
  using assms
  by (auto simp: setup_defs Let_def split: sum.splits option.splits)

lemma setup_hit:
  assumes "cache s p = Some qe"
  shows "load_and_process_data L k p s = (Inr qe, log (CacheLookup p) s)"
  using assms by (simp add: setup_defs)

lemma setup_stores:
  assumes "load_and_process_data L k p s = (Inr qe, s1)"
  shows "cache s1 p = Some qe"
  using assms
  by (auto simp: setup_defs Let_def split: sum.splits option.splits)

lemma calls_cache_kept:
  "cache s p = Some qe \<Longrightarrow> cache (calls L k ps s) p = Some qe"
  by (induction ps arbitrary: s) (simp_all add: setup_cache_kept)

lemma setup_trace_append:
  "trace (snd (load_and_process_data L k q s)) =
     trace s @ new_events s (snd (load_and_process_data L k q s))"
  by (auto simp: setup_defs Let_def split: sum.splits option.splits)

lemma setup_no_reload:
  assumes "cache s p = Some qe"
  shows "LoadData [p] \<notin> set (new_events s (snd (load_and_process_data L k q s)))"
  using assms unfolding setup_events_cases
  by (auto split: option.splits sum.splits)

lemma calls_trace:
  assumes "cache s p = Some qe"
  shows "\<exists>evs. trace (calls L k ps s) = trace s @ evs \<and> LoadData [p] \<notin> set evs"
  using assms
proof (induction ps arbitrary: s)
  case Nil
  then show ?case by simp
next
  case (Cons q ps)
  let ?s1 = "snd (load_and_process_data L k q s)"
  from Cons.prems have c1: "cache ?s1 p = Some qe" by (rule setup_cache_kept)
  from Cons.IH [OF c1] obtain evs where
    e: "trace (calls L k ps ?s1) = trace ?s1 @ evs" "LoadData [p] \<notin> set evs" by blast
  from setup_no_reload [OF Cons.prems]
  have n: "LoadData [p] \<notin> set (new_events s ?s1)" .
  have "trace (calls L k (q # ps) s) = trace s @ (new_events s ?s1 @ evs)"
    using e(1) setup_trace_append [of L k q s] by simp
  with e(2) n show ?case by (intro exI [of _ "new_events s ?s1 @ evs"]) simp
qed

subsection \<open>A run with an upload, phase by phase\<close>

lemma bind_emit: "bind_io (emit ev) f s = f () (log ev s)"
  by (simp add: bind_io_def emit_def)

lemma bind_Inr: "m s = (Inr v, s') \<Longrightarrow> bind_io m f s = f v s'"
  by (simp add: bind_io_def)

lemma bind_Inl: "m s = (Inl e, s') \<Longrightarrow> bind_io m f s = (Inl e, s')"
  by (simp add: bind_io_def)

lemma app_upload:
  assumes "uploaded_file inp = Some b"
      and "mkstemp_inner (fs s) (tmp_names inp) ''.pdf'' = Inr p"
  shows "app L inp s =
     bind_io (load_and_process_data L (OPENAI_API_KEY inp) p) (\<lambda>query_engine.
     bind_io (emit (StTextInput ''Enter your question about the uploaded PDF:''
                      ''What is this document about?'')) (\<lambda>_.
     bind_io (emit (StButton ''Submit Query'')) (\<lambda>_.
     bind_io (if button inp then submit_query L query_engine (text_input inp)
              else (\<lambda>s. (Inr (), s))) (\<lambda>_.
     bind_io (os_unlink p) (\<lambda>_.
     sidebar)))))
     (s\<lparr>fs := (fs s)(p \<mapsto> b),
        trace := trace s @
          [LoadDotenv, NestAsyncioApply, StMarkdown title_html True,
           StFileUploader ''Choose a PDF file'' ''pdf'',
           NamedTemporaryFileCall False ''.pdf'', FileWrite p b]\<rparr>)"
proof -
  let ?s2 = "s\<lparr>trace := trace s @
          [LoadDotenv, NestAsyncioApply, StMarkdown title_html True,
           StFileUploader ''Choose a PDF file'' ''pdf'']\<rparr>"
  have w: "write_upload (tmp_names inp) b ?s2 =
    (Inr p, s\<lparr>fs := (fs s)(p \<mapsto> b),
        trace := trace s @
          [LoadDotenv, NestAsyncioApply, StMarkdown title_html True,
           StFileUploader ''Choose a PDF file'' ''pdf'',
           NamedTemporaryFileCall False ''.pdf'', FileWrite p b]\<rparr>)"
    using assms(2)
    by (simp add: write_upload_def NamedTemporaryFile_def file_write_def file_close_def io_defs)
  have "app L inp s =
     bind_io (write_upload (tmp_names inp) b) (\<lambda>tmp_file_path.
     bind_io (load_and_process_data L (OPENAI_API_KEY inp) tmp_file_path) (\<lambda>query_engine.
     bind_io (emit (StTextInput ''Enter your question about the uploaded PDF:''
                      ''What is this document about?'')) (\<lambda>_.
     bind_io (emit (StButton ''Submit Query'')) (\<lambda>_.
     bind_io (if button inp then submit_query L query_engine (text_input inp)
              else (\<lambda>s. (Inr (), s))) (\<lambda>_.
     bind_io (os_unlink tmp_file_path) (\<lambda>_.
     sidebar)))))) ?s2"
    using assms(1) by (simp add: app_def bind_emit log_def)
  also have "\<dots> = bind_io (load_and_process_data L (OPENAI_API_KEY inp) p) (\<lambda>query_engine.
     bind_io (emit (StTextInput ''Enter your question about the uploaded PDF:''
                      ''What is this document about?'')) (\<lambda>_.
     bind_io (emit (StButton ''Submit Query'')) (\<lambda>_.
     bind_io (if button inp then submit_query L query_engine (text_input inp)
              else (\<lambda>s. (Inr (), s))) (\<lambda>_.
     bind_io (os_unlink p) (\<lambda>_.
     sidebar)))))
     (s\<lparr>fs := (fs s)(p \<mapsto> b),
        trace := trace s @
          [LoadDotenv, NestAsyncioApply, StMarkdown title_html True,
           StFileUploader ''Choose a PDF file'' ''pdf'',
           NamedTemporaryFileCall False ''.pdf'', FileWrite p b]\<rparr>)"
    using w by (rule bind_Inr [where m = "write_upload (tmp_names inp) b"])
  finally show ?thesis .
qed

lemma query_run:
  "\<forall>s. \<exists>evs. snd (query L e q s) = s\<lparr>trace := trace s @ Query e q # evs\<rparr> \<and>
         list_all (\<lambda>ev. query_event ev \<or> is_Raised ev) evs"
proof (induction L e q rule: query.induct)
  case (1 L idx rm ua q)
  show ?case
  proof
    fix s :: world
    show "\<exists>evs. snd (query L (AsQueryEngine idx rm ua) q s) =
             s\<lparr>trace := trace s @ Query (AsQueryEngine idx rm ua) q # evs\<rparr> \<and>
           list_all (\<lambda>ev. query_event ev \<or> is_Raised ev) evs"
      by (intro exI [of _ "case answer L (AsQueryEngine idx rm ua) q of
                             Inl a \<Rightarrow> [Raised a] | Inr r \<Rightarrow> []"])
         (simp add: call_def log_def split: sum.split)
  qed
next
  case (2 L sel tools verbose q)
  show ?case
  proof
    fix s :: world
    let ?R = "RouterQueryEngine sel tools verbose"
    let ?s1 = "s\<lparr>trace := trace s @ [Query ?R q, Select sel (map metadata tools) q]\<rparr>"
    show "\<exists>evs. snd (query L ?R q s) = s\<lparr>trace := trace s @ Query ?R q # evs\<rparr> \<and>
         list_all (\<lambda>ev. query_event ev \<or> is_Raised ev) evs"
    proof (cases "select L sel (map metadata tools) q")
      case (Inl x)
      then show ?thesis
        by (intro exI [of _ "[Select sel (map metadata tools) q, Raised x]"])
           (simp add: io_defs)
    next
      case (Inr i)
      show ?thesis
      proof (cases "i < length tools")
        case True
        from 2 [OF True] obtain evs where
          "snd (query L (tool_query_engine (tools ! i)) q ?s1) =
             ?s1\<lparr>trace := trace ?s1 @ Query (tool_query_engine (tools ! i)) q # evs\<rparr>"
          "list_all (\<lambda>ev. query_event ev \<or> is_Raised ev) evs"
          by blast
        with Inr True show ?thesis
          by (intro exI [of _ "Select sel (map metadata tools) q #
                 Query (tool_query_engine (tools ! i)) q # evs"])
             (simp add: io_defs)
      next
        case False
        with Inr show ?thesis
          by (intro exI [of _ "[Select sel (map metadata tools) q, Raised IndexError]"])
             (simp add: io_defs)
      qed
    qed
  qed
qed

lemma query_ok:
  assumes "query L e q s = (Inr r, s')"
  shows "\<exists>evs. s' = s\<lparr>trace := trace s @ Query e q # evs\<rparr> \<and> list_all query_event evs"
proof -
  from query_run [of L e q] obtain evs where
    e: "snd (query L e q s) = s\<lparr>trace := trace s @ Query e q # evs\<rparr>"
       "list_all (\<lambda>ev. query_event ev \<or> is_Raised ev) evs" by blast
  from traces_query [of L e q] obtain evs' where
    t: "trace (snd (query L e q s)) = trace s @ evs'" "disciplined (fst (query L e q s)) evs'"
    unfolding traces_def by blast
  from e(1) t(1) have "evs' = Query e q # evs" by simp
  with t(2) assms have "list_all (\<lambda>ev. \<not> is_Raised ev) evs" by (simp add: disciplined_def)
  with e(2) have "list_all query_event evs" by (auto simp: list_all_iff)
  with e(1) assms show ?thesis by auto
qed

text \<open>
  What an engine answers does not depend on the state it is asked in: the library's
  answers are functions of the engine and the question.
\<close>

lemma query_result_any_state: "\<forall>s t. fst (query L e q s) = fst (query L e q t)"
proof (induction L e q rule: query.induct)
  case (1 L idx rm ua q)
  show ?case by (simp add: call_def split: sum.split)
next
  case (2 L sel tools verbose q)
  show ?case
  proof (cases "select L sel (map metadata tools) q")
    case (Inl x)
    then show ?thesis by (simp add: io_defs)
  next
    case (Inr i)
    show ?thesis
    proof (cases "i < length tools")
      case True
      from 2 [OF True] Inr True show ?thesis by (simp add: io_defs)
    next
      case False
      with Inr show ?thesis by (simp add: io_defs)
    qed
  qed
qed

lemma submit_ok:
  assumes "submit_query L qe q s = (Inr u, s')"
  shows "\<exists>evs r str. s' = s\<lparr>trace := trace s @ StSpinner ''Processing your query...'' #
            Query qe q # evs @ [StWrite ''Response:'', Str r, StMarkdown (answer_html str) True]\<rparr> \<and>
          list_all query_event evs \<and> response_str L r = Inr str \<and>
          (\<forall>t. fst (query L qe q t) = Inr r)"
proof -
  let ?s1 = "log (StSpinner ''Processing your query...'') s"
  obtain r1 s2 where q: "query L qe q ?s1 = (r1, s2)" by (cases "query L qe q ?s1")
  show ?thesis
  proof (cases r1)
    case (Inl x)
    with q assms show ?thesis by (simp add: submit_query_def io_defs)
  next
    case (Inr r)
    with q query_ok [of L qe q ?s1 r s2] obtain evs where
      e: "s2 = ?s1\<lparr>trace := trace ?s1 @ Query qe q # evs\<rparr>" "list_all query_event evs" by blast
    show ?thesis
    proof (cases "response_str L r")
      case (Inl x)
      with q \<open>r1 = Inr r\<close> assms show ?thesis
        by (simp add: submit_query_def io_defs)
    next
      case (Inr str)
      from q \<open>r1 = Inr r\<close> have "fst (query L qe q ?s1) = Inr r" by simp
      with query_result_any_state [of L qe q]
      have qa: "\<forall>t. fst (query L qe q t) = Inr r" by metis
      from q \<open>r1 = Inr r\<close> assms e Inr
      have "s' = s\<lparr>trace := trace s @ StSpinner ''Processing your query...'' #
            Query qe q # evs @ [StWrite ''Response:'', Str r, StMarkdown (answer_html str) True]\<rparr>"
        by (auto simp: submit_query_def io_defs)
      with e(2) Inr qa show ?thesis by blast
    qed
  qed
qed

lemma submit_frame:
  "\<exists>evs. snd (submit_query L qe q s) = s\<lparr>trace := trace s @ evs\<rparr> \<and>
      list_all (\<lambda>ev. \<not> is_OsUnlink ev) evs"
proof -
  let ?s1 = "log (StSpinner ''Processing your query...'') s"
  from query_run [of L qe q] obtain evs where
    e: "snd (query L qe q ?s1) = ?s1\<lparr>trace := trace ?s1 @ Query qe q # evs\<rparr>"
       "list_all (\<lambda>ev. query_event ev \<or> is_Raised ev) evs" by blast
  have "\<not> is_OsUnlink ev" if "query_event ev \<or> is_Raised ev" for ev
    using that by (cases ev) simp_all
  with e(2) have n: "list_all (\<lambda>ev. \<not> is_OsUnlink ev) evs"
    unfolding list_all_iff by blast
  obtain r1 s2 where q: "query L qe q ?s1 = (r1, s2)" by (cases "query L qe q ?s1")
  with e(1) have s2: "s2 = ?s1\<lparr>trace := trace ?s1 @ Query qe q # evs\<rparr>" by simp
  show ?thesis
  proof (cases r1)
    case (Inl x)
    with q s2 n show ?thesis
      by (intro exI [of _ "StSpinner ''Processing your query...'' # Query qe q # evs"])
         (simp add: submit_query_def io_defs)
  next
    case (Inr r)
    show ?thesis
    proof (cases "response_str L r")
      case (Inl x)
      with q \<open>r1 = Inr r\<close> s2 n show ?thesis
        by (intro exI [of _ "StSpinner ''Processing your query...'' # Query qe q # evs @
              [StWrite ''Response:'', Str r, Raised x]"])
           (simp add: submit_query_def io_defs)
    next
      case (Inr str)
      with q \<open>r1 = Inr r\<close> s2 n show ?thesis
        by (intro exI [of _ "StSpinner ''Processing your query...'' # Query qe q # evs @
              [StWrite ''Response:'', Str r, StMarkdown (answer_html str) True]"])
           (simp add: submit_query_def io_defs)
    qed
  qed
qed

lemma setup_frame:
  "\<exists>evs. trace (snd (load_and_process_data L k p s)) = trace s @ CacheLookup p # evs \<and>
      list_all (\<lambda>ev. setup_event ev \<or> is_Raised ev) evs \<and>
      fs (snd (load_and_process_data L k p s)) = fs s"
proof -
  have "fs (snd (load_and_process_data L k p s)) = fs s"
    by (auto simp: setup_defs Let_def split: sum.splits option.splits)
  moreover have "list_all (\<lambda>ev. setup_event ev \<or> is_Raised ev)
     (tl (new_events s (snd (load_and_process_data L k p s))))"
    unfolding setup_events_cases by (auto split: sum.splits option.splits)
  moreover have "new_events s (snd (load_and_process_data L k p s)) =
     CacheLookup p # tl (new_events s (snd (load_and_process_data L k p s)))"
    unfolding setup_events_cases by simp
  ultimately show ?thesis
    using setup_trace_append [of L k p s]
    by (intro exI [of _ "tl (new_events s (snd (load_and_process_data L k p s)))"]) simp
qed

lemma unlink_sidebar:
  assumes "fs s p \<noteq> None"
  shows "bind_io (os_unlink p) (\<lambda>_. sidebar) s =
    (Inr (), s\<lparr>fs := (fs s)(p := None), trace := trace s @ OsUnlink p # sidebar_events\<rparr>)"
  using assms by (simp add: os_unlink_def sidebar_def sidebar_events_def io_defs)

lemma not_unlink_setup: "setup_event ev \<or> is_Raised ev \<Longrightarrow> \<not> is_OsUnlink ev"
  by (cases ev) simp_all

lemma app_upload':
  assumes "uploaded_file inp = Some b"
      and "mkstemp_inner (fs s) (tmp_names inp) ''.pdf'' = Inr p"
  shows "app L inp s =
     (case load_and_process_data L (OPENAI_API_KEY inp) p (uploaded s p b) of
        (Inl e, s4) \<Rightarrow> (Inl e, s4)
      | (Inr qe, s4) \<Rightarrow>
          (case (if button inp then submit_query L qe (text_input inp)
                 else (\<lambda>s. (Inr (), s))) (s4\<lparr>trace := trace s4 @ widget_events\<rparr>) of
             (Inl e, s7) \<Rightarrow> (Inl e, s7)
           | (Inr u, s7) \<Rightarrow> bind_io (os_unlink p) (\<lambda>_. sidebar) s7))"
  unfolding app_upload [OF assms] uploaded_def upload_events_def widget_events_def
  by (simp add: bind_io_def [of "load_and_process_data _ _ _"] bind_emit log_def
        bind_io_def [of "if _ then _ else _"]
      split: prod.split sum.split)

lemma app_upload_fail:
  assumes up: "uploaded_file inp = Some b"
      and tmp: "mkstemp_inner (fs s) (tmp_names inp) ''.pdf'' = Inr p"
      and fail: "fst (app L inp s) = Inl e"
  shows "fs (snd (app L inp s)) p = Some b \<and>
         list_all (\<lambda>ev. \<not> is_OsUnlink ev) (new_events s (snd (app L inp s)))"
proof -
  let ?s3 = "uploaded s p b"
  obtain r4 s4 where l: "load_and_process_data L (OPENAI_API_KEY inp) p ?s3 = (r4, s4)"
    by (cases "load_and_process_data L (OPENAI_API_KEY inp) p ?s3")
  from setup_frame [of L "OPENAI_API_KEY inp" p ?s3] l obtain evs1 where
    1: "trace s4 = trace ?s3 @ CacheLookup p # evs1"
       "list_all (\<lambda>ev. setup_event ev \<or> is_Raised ev) evs1" "fs s4 = fs ?s3"
    by auto
  from 1(2) have n1: "list_all (\<lambda>ev. \<not> is_OsUnlink ev) evs1"
    unfolding list_all_iff using not_unlink_setup by blast
  show ?thesis
  proof (cases r4)
    case (Inl x)
    with l have "app L inp s = (Inl x, s4)" by (simp add: app_upload' [OF up tmp])
    with 1 n1 show ?thesis
      by (simp add: new_events_def uploaded_def upload_events_def)
  next
    case (Inr qe)
    let ?s6 = "s4\<lparr>trace := trace s4 @ widget_events\<rparr>"
    let ?m = "if button inp then submit_query L qe (text_input inp) else (\<lambda>s. (Inr (), s))"
    obtain r7 s7 where m: "?m ?s6 = (r7, s7)" by (cases "?m ?s6")
    have 7: "\<exists>evs. s7 = ?s6\<lparr>trace := trace ?s6 @ evs\<rparr> \<and> list_all (\<lambda>ev. \<not> is_OsUnlink ev) evs"
    proof (cases "button inp")
      case True
      with m submit_frame [of L qe "text_input inp" ?s6] show ?thesis by simp
    next
      case False
      with m show ?thesis by (intro exI [of _ "[]"]) auto
    qed
    then obtain evs where
      e: "s7 = ?s6\<lparr>trace := trace ?s6 @ evs\<rparr>" "list_all (\<lambda>ev. \<not> is_OsUnlink ev) evs"
      by blast
    from e(1) 1(3) have f7: "fs s7 p = Some b" by (simp add: uploaded_def)
    show ?thesis
    proof (cases r7)
      case (Inl x)
      with l Inr m have "app L inp s = (Inl x, s7)" by (simp add: app_upload' [OF up tmp])
      with 1 n1 e f7 show ?thesis
        by (simp add: new_events_def uploaded_def upload_events_def widget_events_def)
    next
      case (Inr u)
      with l \<open>r4 = Inr qe\<close> m have "app L inp s = bind_io (os_unlink p) (\<lambda>_. sidebar) s7"
        by (simp add: app_upload' [OF up tmp])
      with f7 fail show ?thesis by (simp add: unlink_sidebar)
    qed
  qed
qed

lemma mkstemp_inner_fresh:
  "mkstemp_inner files names sfx = Inr p \<Longrightarrow> files p = None \<and> (\<exists>n \<in> set names. p = n @ sfx)"
  by (induction names) (auto split: if_splits)

lemma setup_ok:
  assumes "load_and_process_data L k p s = (Inr qe, s4)"
  shows "\<exists>evs. trace s4 = trace s @ CacheLookup p # evs \<and> list_all setup_event evs \<and>
           fs s4 = fs s \<and> cache s4 p = Some qe"
proof -
  from setup_frame [of L k p s] assms obtain evs where
    1: "trace s4 = trace s @ CacheLookup p # evs"
       "list_all (\<lambda>ev. setup_event ev \<or> is_Raised ev) evs" "fs s4 = fs s"
    by auto
  from traces_load_and_process_data [of L k p] obtain evs' where
    t: "trace (snd (load_and_process_data L k p s)) = trace s @ evs'"
       "disciplined (fst (load_and_process_data L k p s)) evs'"
    unfolding traces_def by blast
  from t(1) 1(1) assms have "evs' = CacheLookup p # evs" by simp
  with t(2) assms have "list_all (\<lambda>ev. \<not> is_Raised ev) evs" by (simp add: disciplined_def)
  with 1(2) have "list_all setup_event evs" by (auto simp: list_all_iff)
  with 1 setup_stores [OF assms] show ?thesis by blast
qed

lemma app_upload_ok:
  assumes up: "uploaded_file inp = Some b"
      and tmp: "mkstemp_inner (fs s) (tmp_names inp) ''.pdf'' = Inr p"
      and ok: "fst (app L inp s) = Inr u"
  shows "\<exists>qe s4 setup_evs submit_evs.
     load_and_process_data L (OPENAI_API_KEY inp) p (uploaded s p b) = (Inr qe, s4) \<and>
     new_events s (snd (app L inp s)) =
       upload_events p b @ CacheLookup p # setup_evs @ widget_events @ submit_evs @
       OsUnlink p # sidebar_events \<and>
     list_all setup_event setup_evs \<and>
     (if button inp
      then \<exists>qevs r str. submit_evs =
             StSpinner ''Processing your query...'' # Query qe (text_input inp) # qevs @
             [StWrite ''Response:'', Str r, StMarkdown (answer_html str) True] \<and>
             list_all query_event qevs \<and> response_str L r = Inr str \<and>
             (\<forall>t. fst (query L qe (text_input inp) t) = Inr r)
      else submit_evs = []) \<and>
     fs (snd (app L inp s)) = fs s \<and> cache (snd (app L inp s)) = cache s4 \<and>
     cache s4 p = Some qe"
proof -
  let ?s3 = "uploaded s p b"
  from tmp have fresh: "fs s p = None" by (simp add: mkstemp_inner_fresh)
  obtain r4 s4 where l: "load_and_process_data L (OPENAI_API_KEY inp) p ?s3 = (r4, s4)"
    by (cases "load_and_process_data L (OPENAI_API_KEY inp) p ?s3")
  from ok l obtain qe where r4: "r4 = Inr qe"
    by (cases r4) (simp_all add: app_upload' [OF up tmp])
  from setup_ok [OF l [unfolded r4]] obtain evs1 where
    1: "trace s4 = trace ?s3 @ CacheLookup p # evs1" "list_all setup_event evs1"
       "fs s4 = fs ?s3" "cache s4 p = Some qe" by blast
  let ?s6 = "s4\<lparr>trace := trace s4 @ widget_events\<rparr>"
  let ?m = "if button inp then submit_query L qe (text_input inp) else (\<lambda>s. (Inr (), s))"
  obtain r7 s7 where m: "?m ?s6 = (r7, s7)" by (cases "?m ?s6")
  from ok l r4 m obtain u' where r7: "r7 = Inr u'"
    by (cases r7) (simp_all add: app_upload' [OF up tmp])
  have 7: "\<exists>evs. s7 = ?s6\<lparr>trace := trace ?s6 @ evs\<rparr> \<and>
     (if button inp
      then \<exists>qevs r str. evs =
             StSpinner ''Processing your query...'' # Query qe (text_input inp) # qevs @
             [StWrite ''Response:'', Str r, StMarkdown (answer_html str) True] \<and>
             list_all query_event qevs \<and> response_str L r = Inr str \<and>
             (\<forall>t. fst (query L qe (text_input inp) t) = Inr r)
      else evs = [])"
  proof (cases "button inp")
    case True
    with m r7 have "submit_query L qe (text_input inp) ?s6 = (Inr u', s7)" by simp
    from submit_ok [OF this] True show ?thesis by auto
  next
    case False
    with m show ?thesis by auto
  qed
  then obtain evs where
    e: "s7 = ?s6\<lparr>trace := trace ?s6 @ evs\<rparr>"
       "if button inp
        then \<exists>qevs r str. evs =
             StSpinner ''Processing your query...'' # Query qe (text_input inp) # qevs @
             [StWrite ''Response:'', Str r, StMarkdown (answer_html str) True] \<and>
             list_all query_event qevs \<and> response_str L r = Inr str \<and>
             (\<forall>t. fst (query L qe (text_input inp) t) = Inr r)
        else evs = []"
    by blast
  from e(1) 1(3) have f7: "fs s7 p \<noteq> None" "fs s7 = (fs s)(p \<mapsto> b)"
    by (simp_all add: uploaded_def)
  from l r4 m r7 have "app L inp s = bind_io (os_unlink p) (\<lambda>_. sidebar) s7"
    by (simp add: app_upload' [OF up tmp])
  with f7(1) have a: "app L inp s =
     (Inr (), s7\<lparr>fs := (fs s7)(p := None), trace := trace s7 @ OsUnlink p # sidebar_events\<rparr>)"
    by (simp add: unlink_sidebar)
  have tr: "new_events s (snd (app L inp s)) =
       upload_events p b @ CacheLookup p # evs1 @ widget_events @ evs @
       OsUnlink p # sidebar_events"
    using a e(1) 1(1) by (simp add: new_events_def uploaded_def)
  have fsf: "fs (snd (app L inp s)) = fs s"
    using a f7(2) fresh by (auto simp: fun_eq_iff)
  have cf: "cache (snd (app L inp s)) = cache s4"
    using a e(1) by simp
  from l r4 tr 1(2) e(2) fsf cf 1(4) show ?thesis by blast
qed

lemma app_upload_prefix:
  assumes up: "uploaded_file inp = Some b"
      and tmp: "mkstemp_inner (fs s) (tmp_names inp) ''.pdf'' = Inr p"
  shows "\<exists>rest. new_events s (snd (app L inp s)) = upload_events p b @ CacheLookup p # rest"
proof (cases "fst (app L inp s)")
  case (Inr u)
  from app_upload_ok [OF up tmp Inr] show ?thesis by auto
next
  case (Inl e)
  let ?s3 = "uploaded s p b"
  obtain r4 s4 where l: "load_and_process_data L (OPENAI_API_KEY inp) p ?s3 = (r4, s4)"
    by (cases "load_and_process_data L (OPENAI_API_KEY inp) p ?s3")
  from setup_frame [of L "OPENAI_API_KEY inp" p ?s3] l obtain evs1 where
    1: "trace s4 = trace ?s3 @ CacheLookup p # evs1" by auto
  show ?thesis
  proof (cases r4)
    case (Inl x)
    with l have "app L inp s = (Inl x, s4)" by (simp add: app_upload' [OF up tmp])
    with 1 show ?thesis by (simp add: new_events_def uploaded_def)
  next
    case (Inr qe)
    let ?s6 = "s4\<lparr>trace := trace s4 @ widget_events\<rparr>"
    let ?m = "if button inp then submit_query L qe (text_input inp) else (\<lambda>s. (Inr (), s))"
    obtain r7 s7 where m: "?m ?s6 = (r7, s7)" by (cases "?m ?s6")
    have "\<exists>evs. s7 = ?s6\<lparr>trace := trace ?s6 @ evs\<rparr>"
    proof (cases "button inp")
      case True
      with m submit_frame [of L qe "text_input inp" ?s6] show ?thesis by auto
    next
      case False
      with m show ?thesis by (intro exI [of _ "[]"]) auto
    qed
    then obtain evs where e: "s7 = ?s6\<lparr>trace := trace ?s6 @ evs\<rparr>" by blast
    show ?thesis
    proof (cases r7)
      case (Inl x)
      with l Inr m have "app L inp s = (Inl x, s7)" by (simp add: app_upload' [OF up tmp])
      with 1 e show ?thesis by (simp add: new_events_def uploaded_def)
    next
      case (Inr u)
      with l \<open>r4 = Inr qe\<close> m have a: "app L inp s = bind_io (os_unlink p) (\<lambda>_. sidebar) s7"
        by (simp add: app_upload' [OF up tmp])
      from setup_frame [of L "OPENAI_API_KEY inp" p ?s3] l have "fs s4 = fs ?s3" by auto
      with e have "fs s7 p \<noteq> None" by (simp add: uploaded_def)
      with a Inl show ?thesis by (simp add: unlink_sidebar)
    qed
  qed
qed

subsection \<open>Every run, case by case\<close>






lemma not_query_setup: "setup_event ev \<Longrightarrow> \<not> query_event ev"
  by (cases ev) simp_all





subsection \<open>Routing a submitted question\<close>

lemma built_by_setup_router_over:
  "built_by_setup (router_over (SummaryIndex ns) (VectorStoreIndex ns))"
  by (simp add: built_by_setup_def router_over_def)

lemma built_by_setupD:
  assumes "built_by_setup qe"
  shows "\<exists>ns. qe = router_over (SummaryIndex ns) (VectorStoreIndex ns)"
  using assms
  by (auto simp: built_by_setup_def
           split: query_engine.splits list.splits query_engine_tool.splits)
     metis

lemma body_built:
  assumes "load_and_process_data_body L k p s = (Inr qe, s')"
  shows "(\<exists>ns. qe = router_over (SummaryIndex ns) (VectorStoreIndex ns)) \<and> cache s' = cache s"
  using assms
  by (auto simp: load_and_process_data_body_def io_defs Let_def
           split: sum.splits option.splits)

lemma setup_built:
  assumes inv: "cache_inv s" and l: "load_and_process_data L k p s = (Inr qe, s')"
  shows "built_by_setup qe \<and> cache_inv s'"
proof (cases "cache s p")
  case (Some v)
  with l have "qe = v" "s' = log (CacheLookup p) s" by (simp_all add: setup_hit)
  with inv Some show ?thesis by (simp add: cache_inv_def log_def)
next
  case None
  let ?s1 = "log (CacheLookup p) s"
  obtain r s2 where b: "load_and_process_data_body L k p ?s1 = (r, s2)"
    by (cases "load_and_process_data_body L k p ?s1")
  from l None b have r: "r = Inr qe" and s': "s' = s2\<lparr>cache := (cache s2)(p \<mapsto> qe)\<rparr>"
    by (auto simp: load_and_process_data_def cache_resource_def emit_def bind_io_def log_def
             split: sum.splits)
  from body_built [OF b [unfolded r]] obtain ns where
    q: "qe = router_over (SummaryIndex ns) (VectorStoreIndex ns)" and c: "cache s2 = cache ?s1"
    by blast
  from q have "built_by_setup qe" by (simp add: built_by_setup_router_over)
  with inv s' c show ?thesis by (simp add: cache_inv_def log_def)
qed

text \<open>
  The invariant holds in the empty world and every run of the script keeps it, so it
  holds whenever a run starts.
\<close>

lemma cache_inv_world0: "cache_inv world0"
  by (simp add: cache_inv_def world0_def)

lemma setup_fail_cache:
  assumes "load_and_process_data L k p s = (Inl e, s')"
  shows "cache s' = cache s"
  using assms by (auto simp: setup_defs Let_def split: sum.splits option.splits)

lemma setup_cache_inv:
  assumes "cache_inv s"
  shows "cache_inv (snd (load_and_process_data L k p s))"
proof (cases "load_and_process_data L k p s")
  case (Pair r s')
  show ?thesis
  proof (cases r)
    case (Inl e)
    with Pair assms setup_fail_cache [of L k p s e s'] show ?thesis
      by (simp add: cache_inv_def)
  next
    case (Inr qe)
    with Pair setup_built [OF assms, of L k p qe s'] show ?thesis by simp
  qed
qed

lemma app_cache_inv:
  assumes inv: "cache_inv s"
  shows "cache_inv (snd (app L inp s))"
proof (cases "uploaded_file inp")
  case None
  with inv show ?thesis by (simp add: app_def sidebar_def io_defs cache_inv_def)
next
  case (Some b)
  show ?thesis
  proof (cases "mkstemp_inner (fs s) (tmp_names inp) ''.pdf''")
    case (Inl e)
    with Some inv show ?thesis
      by (simp add: app_def write_upload_def NamedTemporaryFile_def io_defs cache_inv_def)
  next
    case (Inr p)
    let ?s3 = "uploaded s p b"
    from inv have "cache_inv ?s3" by (simp add: cache_inv_def uploaded_def)
    from setup_cache_inv [OF this, of L "OPENAI_API_KEY inp" p]
    have i4: "cache_inv (snd (load_and_process_data L (OPENAI_API_KEY inp) p ?s3))" .
    obtain r4 s4 where l: "load_and_process_data L (OPENAI_API_KEY inp) p ?s3 = (r4, s4)"
      by (cases "load_and_process_data L (OPENAI_API_KEY inp) p ?s3")
    with i4 have c4: "cache_inv s4" by simp
    show ?thesis
    proof (cases r4)
      case (Inl x)
      with l c4 show ?thesis by (simp add: app_upload' [OF Some Inr])
    next
      case (Inr qe)
      let ?s6 = "s4\<lparr>trace := trace s4 @ widget_events\<rparr>"
      let ?m = "if button inp then submit_query L qe (text_input inp) else (\<lambda>s. (Inr (), s))"
      obtain r7 s7 where m: "?m ?s6 = (r7, s7)" by (cases "?m ?s6")
      have "\<exists>evs. s7 = ?s6\<lparr>trace := trace ?s6 @ evs\<rparr>"
      proof (cases "button inp")
        case True
        with m submit_frame [of L qe "text_input inp" ?s6] show ?thesis by auto
      next
        case False
        with m show ?thesis by (intro exI [of _ "[]"]) auto
      qed
      then obtain evs where e: "s7 = ?s6\<lparr>trace := trace ?s6 @ evs\<rparr>" by blast
      with c4 have c7: "cache_inv s7" by (simp add: cache_inv_def)
      show ?thesis
      proof (cases r7)
        case (Inl x)
        with l Inr m c7 show ?thesis by (simp add: app_upload' [OF Some \<open>mkstemp_inner (fs s) (tmp_names inp) ''.pdf'' = Inr p\<close>])
      next
        case (Inr u)
        with l \<open>r4 = Inr qe\<close> m
        have "app L inp s = bind_io (os_unlink p) (\<lambda>_. sidebar) s7"
          by (simp add: app_upload' [OF Some \<open>mkstemp_inner (fs s) (tmp_names inp) ''.pdf'' = Inr p\<close>])
        with c7 show ?thesis
          by (simp add: os_unlink_def sidebar_def io_defs cache_inv_def)
      qed
    qed
  qed
qed

lemma not_query_raised: "is_Raised ev \<Longrightarrow> \<not> query_event ev"
  by (cases ev) simp_all

lemma submit_router_filter:
  "filter query_event (new_events s (snd (submit_query L (router_over si vi) q s))) =
     Query (router_over si vi) q #
     Select LLMSingleSelector (map metadata (query_engine_tools (router_over si vi))) q #
     (case select L LLMSingleSelector (map metadata (query_engine_tools (router_over si vi))) q of
        Inl e \<Rightarrow> []
      | Inr i \<Rightarrow>
          if i < length (query_engine_tools (router_over si vi))
          then [Query (tool_query_engine (query_engine_tools (router_over si vi) ! i)) q]
          else [])"
proof (cases "select L LLMSingleSelector
                [ToolMetadata ''Useful for summarizing the uploaded PDF.'' None,
                 ToolMetadata ''Useful for finding similar sentences in the uploaded PDF.'' None] q")
  case (Inl e)
  then show ?thesis
    by (simp add: submit_query_def router_over_def new_events_def io_defs)
next
  case (Inr i)
  consider "i = 0" | "i = 1" | "2 \<le> i" by linarith
  then show ?thesis
  proof cases
    case 1
    with Inr show ?thesis
      by (simp add: submit_query_def router_over_def new_events_def io_defs split: sum.split)
  next
    case 2
    with Inr show ?thesis
      by (simp add: submit_query_def router_over_def new_events_def io_defs split: sum.split)
  next
    case 3
    with Inr show ?thesis
      by (simp add: submit_query_def router_over_def new_events_def io_defs)
  qed
qed

lemma app_upload_submit:
  assumes up: "uploaded_file inp = Some b"
      and tmp: "mkstemp_inner (fs s) (tmp_names inp) ''.pdf'' = Inr p"
      and btn: "button inp"
      and l: "load_and_process_data L (OPENAI_API_KEY inp) p (uploaded s p b) = (Inr qe, s4)"
  shows "filter query_event (new_events s (snd (app L inp s))) =
         filter query_event
           (new_events (s4\<lparr>trace := trace s4 @ widget_events\<rparr>)
              (snd (submit_query L qe (text_input inp) (s4\<lparr>trace := trace s4 @ widget_events\<rparr>))))"
proof -
  let ?s3 = "uploaded s p b"
  let ?s6 = "s4\<lparr>trace := trace s4 @ widget_events\<rparr>"
  from setup_ok [OF l] obtain evs1 where
    1: "trace s4 = trace ?s3 @ CacheLookup p # evs1" "list_all setup_event evs1"
       "fs s4 = fs ?s3" by blast
  from 1(2) have f1: "filter query_event evs1 = []"
    by (auto simp: filter_empty_conv list_all_iff not_query_setup)
  obtain r7 s7 where m: "submit_query L qe (text_input inp) ?s6 = (r7, s7)"
    by (cases "submit_query L qe (text_input inp) ?s6")
  from submit_frame [of L qe "text_input inp" ?s6] m obtain evs where
    e: "s7 = ?s6\<lparr>trace := trace ?s6 @ evs\<rparr>" by auto
  have pre: "filter query_event (upload_events p b @ CacheLookup p # evs1 @ widget_events) = []"
    using f1 by (simp add: upload_events_def widget_events_def)
  have n: "new_events ?s6 s7 = evs" using e by (simp add: new_events_def)
  show ?thesis
  proof (cases r7)
    case (Inl x)
    with l m btn have "app L inp s = (Inl x, s7)" by (simp add: app_upload' [OF up tmp])
    then have "new_events s (snd (app L inp s)) =
        (upload_events p b @ CacheLookup p # evs1 @ widget_events) @ evs"
      using e 1(1) by (simp add: new_events_def uploaded_def)
    with pre n m show ?thesis by (simp del: append_assoc)
  next
    case (Inr u)
    with l m btn have a: "app L inp s = bind_io (os_unlink p) (\<lambda>_. sidebar) s7"
      by (simp add: app_upload' [OF up tmp])
    from e 1(3) have "fs s7 p \<noteq> None" by (simp add: uploaded_def)
    with a have "app L inp s =
      (Inr (), s7\<lparr>fs := (fs s7)(p := None), trace := trace s7 @ OsUnlink p # sidebar_events\<rparr>)"
      by (simp add: unlink_sidebar)
    then have "new_events s (snd (app L inp s)) =
        (upload_events p b @ CacheLookup p # evs1 @ widget_events) @ evs @
        OsUnlink p # sidebar_events"
      using e 1(1) by (simp add: new_events_def uploaded_def)
    with pre n m show ?thesis by (simp add: sidebar_events_def del: append_assoc)
  qed
qed

subsection \<open>The claims\<close>

text \<open>
  C1: when a question is submitted (a file was uploaded, the setup routine returned its
  engine and the button was pressed), the engine the question goes to is a router built
  over exactly two tools, the summary tool and the vector tool, with an LLM single
  selector; the router is queried once with the question, its selector is called once,
  with the two tools' descriptions and the question, and the question is then handed to
  the engine of the one tool at the position the selector chose, and to no other (to none
  when the selector raises or chooses no valid position).
\<close>

theorem submitted_question_routed_to_one_tool:
  assumes "cache_inv s"
      and "uploaded_file inp = Some b"
      and "mkstemp_inner (fs s) (tmp_names inp) ''.pdf'' = Inr p"
      and "button inp"
      and "load_and_process_data L (OPENAI_API_KEY inp) p (uploaded s p b) = (Inr qe, s4)"
  shows "(\<exists>nodes. qe = router_over (SummaryIndex nodes) (VectorStoreIndex nodes)) \<and>
         length (query_engine_tools qe) = 2 \<and>
         filter query_event (new_events s (snd (app L inp s))) =
           Query qe (text_input inp) #
           Select LLMSingleSelector (map metadata (query_engine_tools qe)) (text_input inp) #
           (case select L LLMSingleSelector (map metadata (query_engine_tools qe))
                   (text_input inp) of
              Inl e \<Rightarrow> []
            | Inr i \<Rightarrow>
                if i < length (query_engine_tools qe)
                then [Query (tool_query_engine (query_engine_tools qe ! i)) (text_input inp)]
                else [])"
proof -
  from assms(1) have "cache_inv (uploaded s p b)" by (simp add: cache_inv_def uploaded_def)
  from setup_built [OF this assms(5)] have "built_by_setup qe" by simp
  then obtain nodes where q: "qe = router_over (SummaryIndex nodes) (VectorStoreIndex nodes)"
    using built_by_setupD by blast
  then have 2: "length (query_engine_tools qe) = 2" by (simp add: router_over_def)
  have "filter query_event (new_events s (snd (app L inp s))) =
         filter query_event
           (new_events (s4\<lparr>trace := trace s4 @ widget_events\<rparr>)
              (snd (submit_query L qe (text_input inp) (s4\<lparr>trace := trace s4 @ widget_events\<rparr>))))"
    by (rule app_upload_submit [OF assms(2-5)])
  also have "\<dots> =
           Query qe (text_input inp) #
           Select LLMSingleSelector (map metadata (query_engine_tools qe)) (text_input inp) #
           (case select L LLMSingleSelector (map metadata (query_engine_tools qe))
                   (text_input inp) of
              Inl e \<Rightarrow> []
            | Inr i \<Rightarrow>
                if i < length (query_engine_tools qe)
                then [Query (tool_query_engine (query_engine_tools qe ! i)) (text_input inp)]
                else [])"
    unfolding q by (rule submit_router_filter)
  finally have 3: "filter query_event (new_events s (snd (app L inp s))) =
           Query qe (text_input inp) #
           Select LLMSingleSelector (map metadata (query_engine_tools qe)) (text_input inp) #
           (case select L LLMSingleSelector (map metadata (query_engine_tools qe))
                   (text_input inp) of
              Inl e \<Rightarrow> []
            | Inr i \<Rightarrow>
                if i < length (query_engine_tools qe)
                then [Query (tool_query_engine (query_engine_tools qe ! i)) (text_input inp)]
                else [])" .
  from q have 1: "\<exists>nodes. qe = router_over (SummaryIndex nodes) (VectorStoreIndex nodes)"
    by blast
  from 1 2 3 show ?thesis by (intro conjI)
qed

theorem submitted_question_routed_to_one_tool_witness:
  "cache_inv world0 \<and>
   uploaded_file inp_submit = Some ''%PDF'' \<and>
   mkstemp_inner (fs world0) (tmp_names inp_submit) ''.pdf'' = Inr ''/tmp/tmpa.pdf'' \<and>
   button inp_submit \<and>
   fst (load_and_process_data lib_ok (OPENAI_API_KEY inp_submit) ''/tmp/tmpa.pdf''
          (uploaded world0 ''/tmp/tmpa.pdf'' ''%PDF'')) =
     Inr (router_over (SummaryIndex [TextNode ''%PDF'']) (VectorStoreIndex [TextNode ''%PDF''])) \<and>
   filter query_event (new_events world0 (snd (app lib_ok inp_submit world0))) =
     [Query (router_over (SummaryIndex [TextNode ''%PDF'']) (VectorStoreIndex [TextNode ''%PDF'']))
        ''What?'',
      Select LLMSingleSelector
        [ToolMetadata ''Useful for summarizing the uploaded PDF.'' None,
         ToolMetadata ''Useful for finding similar sentences in the uploaded PDF.'' None]
        ''What?'',
      Query (AsQueryEngine (VectorStoreIndex [TextNode ''%PDF'']) None None) ''What?'']"
proof -
  have h: "cache_inv world0"
    "uploaded_file inp_submit = Some ''%PDF''"
    "mkstemp_inner (fs world0) (tmp_names inp_submit) ''.pdf'' = Inr ''/tmp/tmpa.pdf''"
    "button inp_submit"
    by (simp_all add: cache_inv_def inp_submit_def world0_def)
  have l1: "fst (load_and_process_data lib_ok (OPENAI_API_KEY inp_submit) ''/tmp/tmpa.pdf''
          (uploaded world0 ''/tmp/tmpa.pdf'' ''%PDF'')) =
     Inr (router_over (SummaryIndex [TextNode ''%PDF'']) (VectorStoreIndex [TextNode ''%PDF'']))"
    by (simp add: setup_defs uploaded_def upload_events_def concrete_defs)
  then have l: "load_and_process_data lib_ok (OPENAI_API_KEY inp_submit) ''/tmp/tmpa.pdf''
          (uploaded world0 ''/tmp/tmpa.pdf'' ''%PDF'') =
     (Inr (router_over (SummaryIndex [TextNode ''%PDF'']) (VectorStoreIndex [TextNode ''%PDF''])),
      snd (load_and_process_data lib_ok (OPENAI_API_KEY inp_submit) ''/tmp/tmpa.pdf''
          (uploaded world0 ''/tmp/tmpa.pdf'' ''%PDF'')))"
    by (simp add: prod_eq_iff)
  from submitted_question_routed_to_one_tool [OF h l]
  have "filter query_event (new_events world0 (snd (app lib_ok inp_submit world0))) =
     [Query (router_over (SummaryIndex [TextNode ''%PDF'']) (VectorStoreIndex [TextNode ''%PDF'']))
        ''What?'',
      Select LLMSingleSelector
        [ToolMetadata ''Useful for summarizing the uploaded PDF.'' None,
         ToolMetadata ''Useful for finding similar sentences in the uploaded PDF.'' None]
        ''What?'',
      Query (AsQueryEngine (VectorStoreIndex [TextNode ''%PDF'']) None None) ''What?'']"
    by (simp add: router_over_def lib_ok_def inp_submit_def)
  with h l1 show ?thesis by (simp only: simp_thms)
qed






text \<open>
  C4, as the claim states it, fails: a call whose body raises stores nothing, so the
  next call with the same path runs the body again. With a reader that raises, two calls
  with one path load the documents twice.
\<close>

theorem body_runs_again_after_raise_counterexample:
  "count_list
     (trace (calls lib_load_fails None [''/tmp/tmpa.pdf'', ''/tmp/tmpa.pdf''] world_uploaded))
     (LoadData [''/tmp/tmpa.pdf'']) = 2"
  by (simp add: setup_defs world_uploaded_def world0_def lib_load_fails_def lib_ok_def)

text \<open>
  C4, amended: once a call of the setup routine with a path has returned an engine, every
  later call with that path returns that same engine from the cache without entering the
  body, whatever calls were made in between and whatever the library would do now; and
  the body is not entered for that path in between either.
\<close>

theorem memoized_once_returned:
  assumes "load_and_process_data L k p s = (Inr qe, s1)"
  shows "load_and_process_data L' k' p (calls L' k' ps s1) =
           (Inr qe, log (CacheLookup p) (calls L' k' ps s1)) \<and>
         LoadData [p] \<notin> set (new_events s1 (calls L' k' ps s1))"
proof -
  from assms have c: "cache s1 p = Some qe" by (rule setup_stores)
  then have "cache (calls L' k' ps s1) p = Some qe" by (rule calls_cache_kept)
  then have 1: "load_and_process_data L' k' p (calls L' k' ps s1) =
           (Inr qe, log (CacheLookup p) (calls L' k' ps s1))" by (rule setup_hit)
  from calls_trace [OF c, of L' k' ps] obtain evs where
    "trace (calls L' k' ps s1) = trace s1 @ evs" "LoadData [p] \<notin> set evs" by blast
  then have "LoadData [p] \<notin> set (new_events s1 (calls L' k' ps s1))"
    by (simp add: new_events_def)
  with 1 show ?thesis by simp
qed

theorem memoized_once_returned_witness:
  "fst (load_and_process_data lib_ok (Some ''sk'') ''/tmp/tmpa.pdf'' world_uploaded) =
     Inr (router_over (SummaryIndex [TextNode ''%PDF'']) (VectorStoreIndex [TextNode ''%PDF''])) \<and>
   fst (load_and_process_data lib_load_fails None ''/tmp/tmpa.pdf''
          (calls lib_load_fails None [''/tmp/other.pdf'', ''/tmp/tmpa.pdf'']
             (snd (load_and_process_data lib_ok (Some ''sk'') ''/tmp/tmpa.pdf'' world_uploaded)))) =
     Inr (router_over (SummaryIndex [TextNode ''%PDF'']) (VectorStoreIndex [TextNode ''%PDF'']))"
proof -
  have h1: "fst (load_and_process_data lib_ok (Some ''sk'') ''/tmp/tmpa.pdf'' world_uploaded) =
     Inr (router_over (SummaryIndex [TextNode ''%PDF'']) (VectorStoreIndex [TextNode ''%PDF'']))"
    by (simp add: setup_defs concrete_defs)
  then have h: "load_and_process_data lib_ok (Some ''sk'') ''/tmp/tmpa.pdf'' world_uploaded =
     (Inr (router_over (SummaryIndex [TextNode ''%PDF'']) (VectorStoreIndex [TextNode ''%PDF''])),
      snd (load_and_process_data lib_ok (Some ''sk'') ''/tmp/tmpa.pdf'' world_uploaded))"
    by (simp add: prod_eq_iff)
  from memoized_once_returned
    [OF h, of lib_load_fails None "[''/tmp/other.pdf'', ''/tmp/tmpa.pdf'']"]
  have "fst (load_and_process_data lib_load_fails None ''/tmp/tmpa.pdf''
          (calls lib_load_fails None [''/tmp/other.pdf'', ''/tmp/tmpa.pdf'']
             (snd (load_and_process_data lib_ok (Some ''sk'') ''/tmp/tmpa.pdf'' world_uploaded)))) =
     Inr (router_over (SummaryIndex [TextNode ''%PDF'']) (VectorStoreIndex [TextNode ''%PDF'']))"
    by (simp only: fst_conv)
  with h1 show ?thesis by (simp only: simp_thms)
qed

text \<open>
  C5: the script installs no failure handling of its own. Whenever any external call of
  a run raises an exception \<open>e\<close> (while the file is loaded, the indices are built, the
  question is answered, or anywhere else), the run ends with exactly that exception,
  and the raise is the last thing that happened: nothing caught it and nothing ran
  after it.
\<close>

theorem exceptions_propagate_unchanged:
  assumes "Raised e \<in> set (new_events s (snd (app L inp s)))"
  shows "fst (app L inp s) = Inl e \<and> last (trace (snd (app L inp s))) = Raised e"
proof -
  from traces_app [of L inp] obtain evs where e: "trace (snd (app L inp s)) = trace s @ evs"
    "disciplined (fst (app L inp s)) evs" unfolding traces_def by blast
  from e(1) assms have r: "Raised e \<in> set evs" by (simp add: new_events_def)
  show ?thesis
  proof (cases "fst (app L inp s)")
    case (Inl x)
    with e(2) obtain pre where p: "evs = pre @ [Raised x]" "list_all (\<lambda>ev. \<not> is_Raised ev) pre"
      by (auto simp: disciplined_def)
    with r have "e = x" by (auto simp: list_all_iff)
    with Inl p e(1) show ?thesis by simp
  next
    case (Inr u)
    with e(2) r show ?thesis by (auto simp: disciplined_def list_all_iff)
  qed
qed

theorem exceptions_propagate_unchanged_witness:
  "Raised (LibraryError ''rate limit'') \<in>
     set (new_events world0 (snd (app lib_answer_fails inp_submit world0))) \<and>
   fst (app lib_answer_fails inp_submit world0) = Inl (LibraryError ''rate limit'') \<and>
   last (trace (snd (app lib_answer_fails inp_submit world0))) =
     Raised (LibraryError ''rate limit'')"
proof -
  have h: "Raised (LibraryError ''rate limit'') \<in>
     set (new_events world0 (snd (app lib_answer_fails inp_submit world0)))"
    by (simp add: run_defs concrete_defs)
  from exceptions_propagate_unchanged [OF h] h show ?thesis by simp
qed

text \<open>
  C6: the splitter the setup routine constructs has the chunk size 1024, and every node
  list an index is built over is what that splitter returned for the documents loaded
  from the path.
\<close>

theorem nodes_come_from_splitter_1024:
  "(\<forall>idx. NewIndex idx \<in> set (new_events s (snd (load_and_process_data L k p s))) \<longrightarrow>
      (\<exists>documents. load_data L (fs s) [p] = Inr documents \<and>
         get_nodes_from_documents L (SentenceSplitter 1024) documents = Inr (index_nodes idx))) \<and>
   (\<forall>sp ds. GetNodes sp ds \<in> set (new_events s (snd (load_and_process_data L k p s))) \<longrightarrow>
      sp = SentenceSplitter 1024 \<and> chunk_size sp = 1024 \<and> load_data L (fs s) [p] = Inr ds)"
  unfolding setup_events_cases
  by (auto split: option.splits sum.splits)

theorem nodes_come_from_splitter_1024_witness:
  "NewIndex (VectorStoreIndex [TextNode ''%PDF'']) \<in>
     set (new_events world_uploaded
            (snd (load_and_process_data lib_ok (Some ''sk'') ''/tmp/tmpa.pdf'' world_uploaded))) \<and>
   GetNodes (SentenceSplitter 1024) [Document ''%PDF''] \<in>
     set (new_events world_uploaded
            (snd (load_and_process_data lib_ok (Some ''sk'') ''/tmp/tmpa.pdf'' world_uploaded))) \<and>
   get_nodes_from_documents lib_ok (SentenceSplitter 1024) [Document ''%PDF''] =
     Inr (index_nodes (VectorStoreIndex [TextNode ''%PDF'']))"
proof -
  have h: "NewIndex (VectorStoreIndex [TextNode ''%PDF'']) \<in>
     set (new_events world_uploaded
            (snd (load_and_process_data lib_ok (Some ''sk'') ''/tmp/tmpa.pdf'' world_uploaded)))"
    "GetNodes (SentenceSplitter 1024) [Document ''%PDF''] \<in>
     set (new_events world_uploaded
            (snd (load_and_process_data lib_ok (Some ''sk'') ''/tmp/tmpa.pdf'' world_uploaded)))"
    by (simp_all add: setup_defs world_uploaded_def world0_def lib_ok_def)
  from nodes_come_from_splitter_1024
    [of world_uploaded lib_ok "Some ''sk''" "''/tmp/tmpa.pdf''"] h
  have "\<exists>documents. load_data lib_ok (fs world_uploaded) [''/tmp/tmpa.pdf''] = Inr documents \<and>
         get_nodes_from_documents lib_ok (SentenceSplitter 1024) documents =
           Inr (index_nodes (VectorStoreIndex [TextNode ''%PDF'']))"
    by blast
  then have "get_nodes_from_documents lib_ok (SentenceSplitter 1024) [Document ''%PDF''] =
     Inr (index_nodes (VectorStoreIndex [TextNode ''%PDF'']))"
    by (simp add: world_uploaded_def world0_def lib_ok_def)
  with h show ?thesis by simp
qed

text \<open>
  C7, as the claim states it, fails: neither tool carries a name. The routine constructs
  each \<open>ToolMetadata\<close> with a description and nothing else.
\<close>

theorem tools_carry_a_name_counterexample:
  "fst (load_and_process_data lib_ok (Some ''sk'') ''/tmp/tmpa.pdf'' world_uploaded) =
     Inr (router_over (SummaryIndex [TextNode ''%PDF'']) (VectorStoreIndex [TextNode ''%PDF''])) \<and>
   map (name \<circ> metadata)
     (query_engine_tools
        (router_over (SummaryIndex [TextNode ''%PDF'']) (VectorStoreIndex [TextNode ''%PDF''])))
   = [None, None]"
  by (simp add: setup_defs world_uploaded_def world0_def lib_ok_def)

text \<open>
  C7, amended: each of the two tools handed to the router is a wrapper around its query
  engine (the summary index's, then the vector index's, over the same nodes) annotated
  with a natural-language description; no name is passed for either.
\<close>

theorem tools_carry_a_description_only:
  assumes "fst (load_and_process_data_body L k p s) = Inr qe"
  shows "\<exists>nodes. query_engine_tools qe =
     [QueryEngineTool
        (AsQueryEngine (SummaryIndex nodes) (Some ''tree_summarize'') (Some True))
        (ToolMetadata ''Useful for summarizing the uploaded PDF.'' None),
      QueryEngineTool
        (AsQueryEngine (VectorStoreIndex nodes) None None)
        (ToolMetadata ''Useful for finding similar sentences in the uploaded PDF.'' None)]"
  using assms
  by (auto simp: load_and_process_data_body_def router_over_def io_defs Let_def
           split: sum.splits option.splits)

theorem tools_carry_a_description_only_witness:
  "fst (load_and_process_data_body lib_ok (Some ''sk'') ''/tmp/tmpa.pdf'' world_uploaded) =
     Inr (router_over (SummaryIndex [TextNode ''%PDF'']) (VectorStoreIndex [TextNode ''%PDF''])) \<and>
   map metadata (query_engine_tools
        (router_over (SummaryIndex [TextNode ''%PDF'']) (VectorStoreIndex [TextNode ''%PDF'']))) =
     [ToolMetadata ''Useful for summarizing the uploaded PDF.'' None,
      ToolMetadata ''Useful for finding similar sentences in the uploaded PDF.'' None]"
proof -
  have h: "fst (load_and_process_data_body lib_ok (Some ''sk'') ''/tmp/tmpa.pdf'' world_uploaded) =
     Inr (router_over (SummaryIndex [TextNode ''%PDF'']) (VectorStoreIndex [TextNode ''%PDF'']))"
    by (simp add: load_and_process_data_body_def io_defs world_uploaded_def world0_def lib_ok_def)
  from tools_carry_a_description_only [OF h] obtain nodes where
    "query_engine_tools
       (router_over (SummaryIndex [TextNode ''%PDF'']) (VectorStoreIndex [TextNode ''%PDF''])) =
     [QueryEngineTool
        (AsQueryEngine (SummaryIndex nodes) (Some ''tree_summarize'') (Some True))
        (ToolMetadata ''Useful for summarizing the uploaded PDF.'' None),
      QueryEngineTool
        (AsQueryEngine (VectorStoreIndex nodes) None None)
        (ToolMetadata ''Useful for finding similar sentences in the uploaded PDF.'' None)]"
    by blast
  then have "map metadata (query_engine_tools
        (router_over (SummaryIndex [TextNode ''%PDF'']) (VectorStoreIndex [TextNode ''%PDF'']))) =
     [ToolMetadata ''Useful for summarizing the uploaded PDF.'' None,
      ToolMetadata ''Useful for finding similar sentences in the uploaded PDF.'' None]"
    by simp
  with h show ?thesis by simp
qed

text \<open>
  C8: when a file was uploaded, the question was handed to the query engine and the run
  ends with an exception (raised by the query or while the answer is rendered), the
  deletion is never reached: \<open>os.unlink\<close> is not called and the temporary file is still
  on disk, holding the upload.
\<close>

theorem query_failure_leaves_temp_file:
  assumes "uploaded_file inp = Some b"
      and "mkstemp_inner (fs s) (tmp_names inp) ''.pdf'' = Inr p"
      and "button inp"
      and "Query qe (text_input inp) \<in> set (new_events s (snd (app L inp s)))"
      and "fst (app L inp s) = Inl e"
  shows "fs (snd (app L inp s)) p = Some b \<and>
         OsUnlink p \<notin> set (new_events s (snd (app L inp s)))"
proof -
  from app_upload_fail [OF assms(1,2,5)] have
    "fs (snd (app L inp s)) p = Some b"
    "list_all (\<lambda>ev. \<not> is_OsUnlink ev) (new_events s (snd (app L inp s)))" by simp_all
  then show ?thesis by (auto simp: list_all_iff)
qed

theorem query_failure_leaves_temp_file_witness:
  "uploaded_file inp_submit = Some ''%PDF'' \<and>
   mkstemp_inner (fs world0) (tmp_names inp_submit) ''.pdf'' = Inr ''/tmp/tmpa.pdf'' \<and>
   button inp_submit \<and>
   Query (AsQueryEngine (VectorStoreIndex [TextNode ''%PDF'']) None None) (text_input inp_submit)
     \<in> set (new_events world0 (snd (app lib_answer_fails inp_submit world0))) \<and>
   fst (app lib_answer_fails inp_submit world0) = Inl (LibraryError ''rate limit'') \<and>
   fs (snd (app lib_answer_fails inp_submit world0)) ''/tmp/tmpa.pdf'' = Some ''%PDF'' \<and>
   OsUnlink ''/tmp/tmpa.pdf'' \<notin> set (new_events world0 (snd (app lib_answer_fails inp_submit world0)))"
proof -
  have h: "uploaded_file inp_submit = Some ''%PDF''"
    "mkstemp_inner (fs world0) (tmp_names inp_submit) ''.pdf'' = Inr ''/tmp/tmpa.pdf''"
    "button inp_submit"
    by (simp_all add: inp_submit_def world0_def)
  have q: "Query (AsQueryEngine (VectorStoreIndex [TextNode ''%PDF'']) None None) (text_input inp_submit)
     \<in> set (new_events world0 (snd (app lib_answer_fails inp_submit world0)))"
    by (simp add: run_defs concrete_defs)
  have f: "fst (app lib_answer_fails inp_submit world0) = Inl (LibraryError ''rate limit'')"
    by (simp add: run_defs concrete_defs)
  from query_failure_leaves_temp_file [OF h q f] h q f show ?thesis by simp
qed

text \<open>
  C9: on a run in which no file is uploaded the script shows the title, the uploader,
  the informational prompt and the sidebar, and does nothing else: the file system, the
  cache and the settings are what they were, and the trace holds no write, no setup, no
  query and no deletion.
\<close>

theorem no_upload_only_info:
  assumes "uploaded_file inp = None"
  shows "app L inp s =
    (Inr (), s\<lparr>trace := trace s @
       [LoadDotenv, NestAsyncioApply, StMarkdown title_html True,
        StFileUploader ''Choose a PDF file'' ''pdf'',
        StInfo ''Please upload a PDF file to begin.'',
        SidebarTitle ''About PDF Query App'', SidebarInfo about_text,
        SidebarTitle ''How to Use'', SidebarInfo how_to_use_text]\<rparr>)"
  using assms by (simp add: app_def sidebar_def io_defs)

theorem no_upload_only_info_witness:
  "uploaded_file inp_no_file = None \<and>
   fs (snd (app lib_ok inp_no_file world0)) = Map.empty \<and>
   cache (snd (app lib_ok inp_no_file world0)) = Map.empty \<and>
   trace (snd (app lib_ok inp_no_file world0)) =
       [LoadDotenv, NestAsyncioApply, StMarkdown title_html True,
        StFileUploader ''Choose a PDF file'' ''pdf'',
        StInfo ''Please upload a PDF file to begin.'',
        SidebarTitle ''About PDF Query App'', SidebarInfo about_text,
        SidebarTitle ''How to Use'', SidebarInfo how_to_use_text]"
proof -
  have h: "uploaded_file inp_no_file = None"
    by (simp add: inp_no_file_def inp_submit_def)
  from no_upload_only_info [OF h, of lib_ok world0] h show ?thesis
    by (simp add: world0_def)
qed

text \<open>
  C10: on a run with an upload, the temporary file is fresh (no file of that name
  existed), its name ends in \<open>.pdf\<close>, it is created with \<open>delete=False\<close> and kept when
  the \<open>with\<close> block is left, what is written to it is exactly the uploaded contents, and
  the next thing the script does is to call the setup routine with that file's path.
\<close>

theorem upload_written_to_fresh_temp_file:
  assumes "uploaded_file inp = Some b"
      and "mkstemp_inner (fs s) (tmp_names inp) ''.pdf'' = Inr p"
  shows "fs s p = None \<and> (\<exists>n \<in> set (tmp_names inp). p = n @ ''.pdf'') \<and>
         write_upload (tmp_names inp) b s =
           (Inr p, s\<lparr>fs := (fs s)(p \<mapsto> b),
                      trace := trace s @ [NamedTemporaryFileCall False ''.pdf'', FileWrite p b]\<rparr>) \<and>
         take 7 (new_events s (snd (app L inp s))) =
           [LoadDotenv, NestAsyncioApply, StMarkdown title_html True,
            StFileUploader ''Choose a PDF file'' ''pdf'',
            NamedTemporaryFileCall False ''.pdf'', FileWrite p b, CacheLookup p]"
proof -
  from assms(2) have 1: "fs s p = None \<and> (\<exists>n \<in> set (tmp_names inp). p = n @ ''.pdf'')"
    by (rule mkstemp_inner_fresh)
  have 2: "write_upload (tmp_names inp) b s =
           (Inr p, s\<lparr>fs := (fs s)(p \<mapsto> b),
                      trace := trace s @ [NamedTemporaryFileCall False ''.pdf'', FileWrite p b]\<rparr>)"
    using assms(2)
    by (simp add: write_upload_def NamedTemporaryFile_def file_write_def file_close_def io_defs)
  from app_upload_prefix [OF assms, of L] obtain rest where
    "new_events s (snd (app L inp s)) = upload_events p b @ CacheLookup p # rest" by blast
  then have 3: "take 7 (new_events s (snd (app L inp s))) =
           [LoadDotenv, NestAsyncioApply, StMarkdown title_html True,
            StFileUploader ''Choose a PDF file'' ''pdf'',
            NamedTemporaryFileCall False ''.pdf'', FileWrite p b, CacheLookup p]"
    by (simp add: upload_events_def)
  from 1 2 3 show ?thesis by simp
qed

theorem upload_written_to_fresh_temp_file_witness:
  "uploaded_file inp_submit = Some ''%PDF'' \<and>
   mkstemp_inner (fs world0) (tmp_names inp_submit) ''.pdf'' = Inr ''/tmp/tmpa.pdf'' \<and>
   fst (write_upload (tmp_names inp_submit) ''%PDF'' world0) = Inr ''/tmp/tmpa.pdf'' \<and>
   fs (snd (write_upload (tmp_names inp_submit) ''%PDF'' world0)) ''/tmp/tmpa.pdf'' = Some ''%PDF'' \<and>
   take 7 (new_events world0 (snd (app lib_ok inp_submit world0))) =
           [LoadDotenv, NestAsyncioApply, StMarkdown title_html True,
            StFileUploader ''Choose a PDF file'' ''pdf'',
            NamedTemporaryFileCall False ''.pdf'', FileWrite ''/tmp/tmpa.pdf'' ''%PDF'',
            CacheLookup ''/tmp/tmpa.pdf'']"
proof -
  have h: "uploaded_file inp_submit = Some ''%PDF''"
    "mkstemp_inner (fs world0) (tmp_names inp_submit) ''.pdf'' = Inr ''/tmp/tmpa.pdf''"
    by (simp_all add: inp_submit_def world0_def)
  from upload_written_to_fresh_temp_file [OF h, of lib_ok] h show ?thesis by simp
qed

end
